theory Spec2Isabelle
  imports Main "HOL-Library.Multiset" "HOL-Library.Sublist"
begin

section \<open>JavaScript values\<close>

text \<open>
  The fields the server inspects (\<^verbatim>\<open>opId\<close>, \<^verbatim>\<open>ts\<close>, \<^verbatim>\<open>type\<close>, \<^verbatim>\<open>username\<close>, \<^verbatim>\<open>color\<close>)
  come out of \<^verbatim>\<open>JSON.parse\<close>, so they hold any JSON value or are absent. The code only
  tests them for truthiness (\<^verbatim>\<open>a || b\<close>, \<^verbatim>\<open>!a\<close>) and copies them. Numbers are integers
  here: \<^verbatim>\<open>Date.now()\<close> yields whole milliseconds. An object or an array as the value of a
  field is \<^verbatim>\<open>JObj\<close> with its JSON text; it is always truthy.
\<close>

datatype jsval = JUndefined | JNull | JBool bool | JNum int | JStr string | JObj string

fun truthy :: "jsval \<Rightarrow> bool" where
  "truthy JUndefined = False"
| "truthy JNull = False"
| "truthy (JBool b) = b"
| "truthy (JNum n) = (n \<noteq> 0)"
| "truthy (JStr s) = (s \<noteq> [])"
| "truthy (JObj s) = True"

text \<open>The JavaScript operator \<^verbatim>\<open>a || b\<close>.\<close>

definition js_or :: "jsval \<Rightarrow> jsval \<Rightarrow> jsval" where
  "js_or a b = (if truthy a then a else b)"

section \<open>Objects\<close>

text \<open>
  An operation object as the server sees it: the three fields \<^verbatim>\<open>pushOp\<close> reads and writes,
  and the remaining properties (points, geometry, colour, author; the elements, when the
  object is an array) as an opaque text.
\<close>

record operation =
  opId :: jsval
  ts :: jsval
  type :: jsval
  body :: string

text \<open>
  What a client sends under \<^verbatim>\<open>op\<close> need not be an object: a number, a string or a boolean
  gets through \<^verbatim>\<open>pushOp\<close> as well (rooms.js is not in strict mode, so a property written on
  a primitive is dropped without an error, and a property read from it gives
  \<^verbatim>\<open>undefined\<close>). An element of the log is therefore a reference to an operation object or
  a primitive value; read through the store it is an object or a primitive.
\<close>

datatype prim = PBool bool | PNum int | PStr string

datatype entry = Ref nat | Val prim

datatype logval = ObjVal operation | PrimVal prim

fun deref :: "(nat \<Rightarrow> operation) \<Rightarrow> entry \<Rightarrow> logval" where
  "deref h (Ref r) = ObjVal (h r)"
| "deref h (Val p) = PrimVal p"

text \<open>The properties \<^verbatim>\<open>opId\<close> and \<^verbatim>\<open>ts\<close> of an element of the log.\<close>

fun valOpId :: "logval \<Rightarrow> jsval" where
  "valOpId (ObjVal v) = opId v"
| "valOpId (PrimVal p) = JUndefined"

fun valTs :: "logval \<Rightarrow> jsval" where
  "valTs (ObjVal v) = ts v"
| "valTs (PrimVal p) = JUndefined"

text \<open>
  A connected client is the WebSocket object with the metadata the server attaches to it.
  \<^verbatim>\<open>c.OPEN\<close> is the constant 1 of the WebSocket interface.
\<close>

record client =
  userId :: string
  username :: jsval
  color :: jsval
  readyState :: nat

definition OPEN :: nat where
  "OPEN = 1"

text \<open>
  A room (\<^verbatim>\<open>createRoom\<close>). Operation objects and client objects are shared by reference in
  the source, so the room holds references (store addresses): \<^verbatim>\<open>clients\<close> is the insertion
  ordered \<^verbatim>\<open>Set\<close> of client references, \<^verbatim>\<open>opLog\<close> and \<^verbatim>\<open>undoneStack\<close> are the contents of
  the room's two arrays.
\<close>

record room =
  roomId :: string
  clients :: "nat list"
  opLog :: "entry list"
  undoneStack :: "entry list"

text \<open>
  The state of the server process as far as one room is concerned: the store of operation
  objects (\<^verbatim>\<open>heap\<close>, with \<^verbatim>\<open>nextRef\<close> the next unused address), the store of the arrays
  other than the room's two (\<^verbatim>\<open>arrays\<close>, with \<^verbatim>\<open>nextArr\<close> the next unused address), the
  store of client objects, and the room object.
\<close>

record server =
  heap :: "nat \<Rightarrow> operation"
  nextRef :: nat
  arrays :: "nat \<Rightarrow> entry list"
  nextArr :: nat
  sockets :: "nat \<Rightarrow> client"
  room :: room

text \<open>
  The arrays of the process by identity: the array \<^verbatim>\<open>this.opLog\<close> refers to, the array
  \<^verbatim>\<open>this.undoneStack\<close> refers to, and the others by their address. Code that holds a
  reference to an array reads and writes it through the reference.
\<close>

datatype aref = OpLogArr | UndoneArr | NewArr nat

fun readArr :: "server \<Rightarrow> aref \<Rightarrow> entry list" where
  "readArr st OpLogArr = opLog (room st)"
| "readArr st UndoneArr = undoneStack (room st)"
| "readArr st (NewArr n) = arrays st n"

fun writeArr :: "aref \<Rightarrow> entry list \<Rightarrow> server \<Rightarrow> server" where
  "writeArr OpLogArr xs st = st\<lparr>room := (room st)\<lparr>opLog := xs\<rparr>\<rparr>"
| "writeArr UndoneArr xs st = st\<lparr>room := (room st)\<lparr>undoneStack := xs\<rparr>\<rparr>"
| "writeArr (NewArr n) xs st = st\<lparr>arrays := (arrays st)(n := xs)\<rparr>"

section \<open>Messages\<close>

record user =
  u_userId :: string
  u_username :: jsval
  u_color :: jsval

text \<open>
  Outbound messages, as the objects given to \<^verbatim>\<open>JSON.stringify\<close>: an operation in a message
  is the operation as it is in the store when the message is built. What the serializer
  makes of the object (it leaves out a field that is \<^verbatim>\<open>undefined\<close>, and the named properties
  of an array) is not part of the model.
\<close>

datatype out_msg =
    Pong jsval
  | UserListMsg "user list"
  | UserLeftMsg string
  | StrokePartMsg string
  | OpMsg logval
  | UndoMsg jsval int
  | OpUndoMsg jsval int
  | RedoMsg logval int
  | OpRedoMsg logval int
  | CursorMsg string jsval jsval jsval jsval
  | StateMsg "logval list"

text \<open>
  Inbound messages after \<^verbatim>\<open>JSON.parse\<close>, by their \<^verbatim>\<open>type\<close>. Where the handler reads a
  property of the payload, the message carries what the read gives, as an option: \<^verbatim>\<open>None\<close>
  is a payload that is \<^verbatim>\<open>undefined\<close> or \<^verbatim>\<open>null\<close>, where the read raises a TypeError; a
  payload that is a primitive, or an object without the property, gives \<^verbatim>\<open>undefined\<close>.

  An \<^verbatim>\<open>op\<close> message is one of three. \<^verbatim>\<open>MsgOp (Some v)\<close>: \<^verbatim>\<open>payload.op\<close> is an object (an
  array included), with \<^verbatim>\<open>v\<close> its content as parsed. \<^verbatim>\<open>MsgOpPrim p\<close>: \<^verbatim>\<open>payload.op\<close> is the
  number, string or boolean \<^verbatim>\<open>p\<close>. \<^verbatim>\<open>MsgOp None\<close>: \<^verbatim>\<open>payload.op\<close> is \<^verbatim>\<open>undefined\<close> or
  \<^verbatim>\<open>null\<close> (as it is for a primitive payload and for an object without \<^verbatim>\<open>op\<close>), or the
  payload itself is \<^verbatim>\<open>undefined\<close> or \<^verbatim>\<open>null\<close>; then reading \<^verbatim>\<open>payload.op\<close>, or reading
  \<^verbatim>\<open>op.opId\<close> on the first line of \<^verbatim>\<open>pushOp\<close>, raises a TypeError before anything has
  changed.
\<close>

datatype client_msg =
    Ping "jsval option"
  | Meta "(jsval \<times> jsval) option"
  | StrokePart string
  | MsgOp "operation option"
  | MsgOpPrim prim
  | Undo
  | Redo
  | Cursor "(jsval \<times> jsval) option"
  | RequestState
  | Other

datatype error = SyntaxError | TypeError

type_synonym sends = "(nat \<times> out_msg) list"

section \<open>The room manager (rooms.js)\<close>

definition createRoom :: "string \<Rightarrow> room" where
  "createRoom i = \<lparr>roomId = i, clients = [], opLog = [], undoneStack = []\<rparr>"

text \<open>
  \<^verbatim>\<open>broadcast(roomIdOrObj, msg, exceptWs)\<close>: one \<^verbatim>\<open>send\<close> call per client of the room that is
  not \<^verbatim>\<open>exceptWs\<close> and whose socket is open, in the order of the set. The result lists the
  calls as (recipient, message). A room that is not found sends nothing.
\<close>

definition broadcast :: "(nat \<Rightarrow> client) \<Rightarrow> room option \<Rightarrow> out_msg \<Rightarrow> nat option \<Rightarrow> sends" where
  "broadcast socks roomObj msg exceptWs =
     (case roomObj of
        None \<Rightarrow> []
      | Some r \<Rightarrow>
          map (\<lambda>c. (c, msg))
            (filter (\<lambda>c. exceptWs \<noteq> Some c \<and> readyState (socks c) = OPEN) (clients r)))"

definition userList :: "(nat \<Rightarrow> client) \<Rightarrow> room \<Rightarrow> user list" where
  "userList socks r =
     map (\<lambda>c. \<lparr>u_userId = userId (socks c), u_username = username (socks c),
                u_color = color (socks c)\<rparr>) (clients r)"

definition join :: "nat \<Rightarrow> server \<Rightarrow> server \<times> sends" where
  "join c st =
     (let r = room st;
          r' = (if c \<in> set (clients r) then r else r\<lparr>clients := clients r @ [c]\<rparr>);
          msg = UserListMsg (userList (sockets st) r')
      in (st\<lparr>room := r'\<rparr>,
          map (\<lambda>d. (d, msg)) (filter (\<lambda>d. readyState (sockets st d) = OPEN) (clients r'))))"

definition leave :: "nat \<Rightarrow> server \<Rightarrow> server" where
  "leave c st = st\<lparr>room := (room st)\<lparr>clients := removeAll c (clients (room st))\<rparr>\<rparr>"

text \<open>
  \<^verbatim>\<open>getState()\<close>: \<^verbatim>\<open>this.opLog.slice()\<close> makes a new array with the elements of the log and
  returns the reference to it.
\<close>

definition getState :: "server \<Rightarrow> aref \<times> server" where
  "getState st =
     (NewArr (nextArr st),
      st\<lparr>arrays := (arrays st)(nextArr st := opLog (room st)), nextArr := Suc (nextArr st)\<rparr>)"

definition applyPartialStroke :: "string \<Rightarrow> nat \<Rightarrow> server \<Rightarrow> server" where
  "applyPartialStroke part c st = st"

text \<open>
  \<^verbatim>\<open>pushOp(op, client)\<close>, with \<^verbatim>\<open>op\<close> a reference to an operation object or a primitive,
  \<^verbatim>\<open>uuid\<close> what \<^verbatim>\<open>uuidv4()\<close> returns and \<^verbatim>\<open>now\<close> what \<^verbatim>\<open>Date.now()\<close> returns. An object is
  written in place; the three writes to a primitive are dropped.
\<close>

definition pushOp :: "entry \<Rightarrow> string \<Rightarrow> int \<Rightarrow> server \<Rightarrow> server" where
  "pushOp e uuid now st =
     (let st1 =
        (case e of
           Ref r \<Rightarrow>
             (let o0 = heap st r;
                  o1 = o0\<lparr>opId := js_or (opId o0) (JStr uuid)\<rparr>;
                  o2 = o1\<lparr>ts := js_or (ts o1) (JNum now)\<rparr>;
                  o3 = (if \<not> truthy (type o2) then o2\<lparr>type := JStr ''stroke''\<rparr> else o2)
              in st\<lparr>heap := (heap st)(r := o3)\<rparr>)
         | Val p \<Rightarrow> st)
      in st1\<lparr>room := (room st1)\<lparr>opLog := opLog (room st1) @ [e], undoneStack := []\<rparr>\<rparr>)"

text \<open>\<^verbatim>\<open>undoLast()\<close> returns \<^verbatim>\<open>{targetOpId, ts}\<close> or null.\<close>

definition undoLast :: "int \<Rightarrow> server \<Rightarrow> (jsval \<times> int) option \<times> server" where
  "undoLast now st =
     (let r = room st in
      if length (opLog r) = 0 then (None, st)
      else
        (let l = last (opLog r) in
         (Some (valOpId (deref (heap st) l), now),
          st\<lparr>room := r\<lparr>opLog := butlast (opLog r), undoneStack := undoneStack r @ [l]\<rparr>\<rparr>)))"

text \<open>\<^verbatim>\<open>redoLast()\<close> returns \<^verbatim>\<open>{stroke, ts}\<close> (the stroke an element of the log) or null.\<close>

definition redoLast :: "int \<Rightarrow> server \<Rightarrow> (entry \<times> int) option \<times> server" where
  "redoLast now st =
     (let r = room st in
      if length (undoneStack r) = 0 then (None, st)
      else
        (let l = last (undoneStack r) in
         (Some (l, now),
          st\<lparr>room := r\<lparr>opLog := opLog r @ [l], undoneStack := butlast (undoneStack r)\<rparr>\<rparr>)))"

section \<open>The protocol handler (server.js)\<close>

text \<open>
  \<^verbatim>\<open>handleMessage(roomObj, client, type, payload)\<close>. \<^verbatim>\<open>rooms.broadcast(roomObj.id, ...)\<close>
  looks the room up by its id and finds \<^verbatim>\<open>roomObj\<close> itself: the connection handler got it
  from \<^verbatim>\<open>getOrCreate\<close> and rooms are never removed. The object of an \<^verbatim>\<open>op\<close> message is the
  one \<^verbatim>\<open>JSON.parse\<close> has just created, so it sits at a new address. \<^verbatim>\<open>Inl\<close> is an exception
  leaving the function; none is raised after a change of state or a send.
\<close>

fun handleMessage :: "string \<Rightarrow> int \<Rightarrow> server \<Rightarrow> nat \<Rightarrow> client_msg \<Rightarrow> error + (server \<times> sends)" where
  "handleMessage uuid now st c (Ping p) =
     (case p of
        None \<Rightarrow> Inl TypeError
      | Some t \<Rightarrow> Inr (st, [(c, Pong t)]))"
| "handleMessage uuid now st c (Meta p) =
     (case p of
        None \<Rightarrow> Inl TypeError
      | Some (u, col) \<Rightarrow>
          (let cl = sockets st c;
               cl' = cl\<lparr>username := js_or u (username cl), color := js_or col (color cl)\<rparr>;
               st' = st\<lparr>sockets := (sockets st)(c := cl')\<rparr>
           in Inr (st', broadcast (sockets st') (Some (room st'))
                          (UserListMsg (userList (sockets st') (room st'))) None)))"
| "handleMessage uuid now st c (StrokePart p) =
     (let st' = applyPartialStroke p c st
      in Inr (st', broadcast (sockets st') (Some (room st')) (StrokePartMsg p) (Some c)))"
| "handleMessage uuid now st c (MsgOp None) = Inl TypeError"
| "handleMessage uuid now st c (MsgOp (Some v)) =
     (let r = nextRef st;
          st1 = st\<lparr>heap := (heap st)(r := v), nextRef := Suc r\<rparr>;
          st2 = pushOp (Ref r) uuid now st1
      in Inr (st2, broadcast (sockets st2) (Some (room st2))
                     (OpMsg (deref (heap st2) (Ref r))) None))"
| "handleMessage uuid now st c (MsgOpPrim p) =
     (let st2 = pushOp (Val p) uuid now st
      in Inr (st2, broadcast (sockets st2) (Some (room st2))
                     (OpMsg (deref (heap st2) (Val p))) None))"
| "handleMessage uuid now st c Undo =
     (case undoLast now st of
        (None, st') \<Rightarrow> Inr (st', [])
      | (Some (target, t), st') \<Rightarrow>
          Inr (st', broadcast (sockets st') (Some (room st')) (UndoMsg target t) None
                    @ broadcast (sockets st') (Some (room st')) (OpUndoMsg target t) None))"
| "handleMessage uuid now st c Redo =
     (case redoLast now st of
        (None, st') \<Rightarrow> Inr (st', [])
      | (Some (l, t), st') \<Rightarrow>
          Inr (st', broadcast (sockets st') (Some (room st'))
                      (RedoMsg (deref (heap st') l) t) None
                    @ broadcast (sockets st') (Some (room st'))
                        (OpRedoMsg (deref (heap st') l) t) None))"
| "handleMessage uuid now st c (Cursor p) =
     (case p of
        None \<Rightarrow> Inl TypeError
      | Some (x, y) \<Rightarrow>
          Inr (st, broadcast (sockets st) (Some (room st))
                     (CursorMsg (userId (sockets st c)) x y (color (sockets st c))
                        (username (sockets st c))) (Some c)))"
| "handleMessage uuid now st c RequestState =
     (case getState st of
        (a, st') \<Rightarrow> Inr (st', [(c, StateMsg (map (deref (heap st')) (readArr st' a)))]))"
| "handleMessage uuid now st c Other = Inr (st, [])"

text \<open>
  The \<^verbatim>\<open>message\<close> listener of a connection: it parses the text (\<^verbatim>\<open>None\<close> is a text that
  \<^verbatim>\<open>JSON.parse\<close> rejects), calls \<^verbatim>\<open>handleMessage\<close> and catches every exception, which is only
  logged.
\<close>

definition onMessage :: "string \<Rightarrow> int \<Rightarrow> server \<Rightarrow> nat \<Rightarrow> client_msg option \<Rightarrow> server \<times> sends" where
  "onMessage uuid now st c m =
     (case m of
        None \<Rightarrow> (st, [])
      | Some msg \<Rightarrow>
          (case handleMessage uuid now st c msg of
             Inl e \<Rightarrow> (st, [])
           | Inr res \<Rightarrow> res))"

text \<open>
  The messages of a room arrive one at a time (one event loop). An event is the sender, the
  values \<^verbatim>\<open>uuidv4()\<close> and \<^verbatim>\<open>Date.now()\<close> would return while it is handled, and the message.
\<close>

type_synonym event = "nat \<times> string \<times> int \<times> client_msg option"

fun run :: "event list \<Rightarrow> server \<Rightarrow> server" where
  "run [] st = st"
| "run ((c, uuid, now, m) # es) st = run es (fst (onMessage uuid now st c m))"

section \<open>Observations and example data\<close>

text \<open>The elements of the log and of the undo/redo stack, read through the store.\<close>

definition logOps :: "server \<Rightarrow> logval list" where
  "logOps st = map (deref (heap st)) (opLog (room st))"

definition stackOps :: "server \<Rightarrow> logval list" where
  "stackOps st = map (deref (heap st)) (undoneStack (room st))"

definition logIds :: "server \<Rightarrow> jsval list" where
  "logIds st = map valOpId (logOps st)"

definition logTs :: "server \<Rightarrow> jsval list" where
  "logTs st = map valTs (logOps st)"

text \<open>A commit is an \<^verbatim>\<open>op\<close> message that gets through \<^verbatim>\<open>pushOp\<close>.\<close>

fun is_commit :: "event \<Rightarrow> bool" where
  "is_commit (c, uuid, now, m) =
     (case m of Some (MsgOp (Some v)) \<Rightarrow> True | Some (MsgOpPrim p) \<Rightarrow> True | _ \<Rightarrow> False)"

fun is_undo :: "event \<Rightarrow> bool" where
  "is_undo (c, uuid, now, m) = (m = Some Undo)"

text \<open>
  The object \<^verbatim>\<open>pushOp\<close> leaves behind for a submitted operation object \<^verbatim>\<open>v\<close>: the id and the
  timestamp are filled in when they are missing or falsy, a missing type becomes
  \<^verbatim>\<open>stroke\<close>, everything else is as submitted.
\<close>

definition finalized :: "operation \<Rightarrow> string \<Rightarrow> int \<Rightarrow> operation" where
  "finalized v uuid now =
     v\<lparr>opId := js_or (opId v) (JStr uuid), ts := js_or (ts v) (JNum now),
       type := (if truthy (type v) then type v else JStr ''stroke'')\<rparr>"

text \<open>What an event appends to the log, if it is a commit.\<close>

fun commitOps :: "event \<Rightarrow> logval list" where
  "commitOps (c, uuid, now, m) =
     (case m of
        Some (MsgOp (Some v)) \<Rightarrow> [ObjVal (finalized v uuid now)]
      | Some (MsgOpPrim p) \<Rightarrow> [PrimVal p]
      | _ \<Rightarrow> [])"

text \<open>Comparison of timestamps: both are numbers and the first is not later.\<close>

fun ts_le :: "jsval \<Rightarrow> jsval \<Rightarrow> bool" where
  "ts_le (JNum a) (JNum b) = (a \<le> b)"
| "ts_le _ _ = False"

text \<open>
  What code that holds a reference \<^verbatim>\<open>a\<close> to an array can do with it: change the array
  (\<^verbatim>\<open>push\<close>, \<^verbatim>\<open>pop\<close>, \<^verbatim>\<open>shift\<close>, \<^verbatim>\<open>reverse\<close>, \<^verbatim>\<open>splice(n)\<close>), or write a field of the
  element at an index (\<^verbatim>\<open>a[i].opId = v\<close> and so on). A field is written in the object the
  element refers to; with nothing at the index the assignment raises, and on a primitive it
  is dropped or raises, so that nothing changes.
\<close>

datatype mutation =
    ArrPush entry
  | ArrPop
  | ArrShift
  | ArrReverse
  | ArrSplice nat
  | SetOpId nat jsval
  | SetTs nat jsval
  | SetType nat jsval
  | SetBody nat string

definition setField :: "(operation \<Rightarrow> operation) \<Rightarrow> nat \<Rightarrow> aref \<Rightarrow> server \<Rightarrow> server" where
  "setField f i a st =
     (if i < length (readArr st a) then
        (case readArr st a ! i of
           Ref r \<Rightarrow> st\<lparr>heap := (heap st)(r := f (heap st r))\<rparr>
         | Val p \<Rightarrow> st)
      else st)"

fun mutate :: "mutation \<Rightarrow> aref \<Rightarrow> server \<Rightarrow> server" where
  "mutate (ArrPush e) a st = writeArr a (readArr st a @ [e]) st"
| "mutate ArrPop a st = writeArr a (butlast (readArr st a)) st"
| "mutate ArrShift a st = writeArr a (tl (readArr st a)) st"
| "mutate ArrReverse a st = writeArr a (rev (readArr st a)) st"
| "mutate (ArrSplice n) a st = writeArr a (take n (readArr st a)) st"
| "mutate (SetOpId i v) a st = setField (\<lambda>x. x\<lparr>opId := v\<rparr>) i a st"
| "mutate (SetTs i v) a st = setField (\<lambda>x. x\<lparr>ts := v\<rparr>) i a st"
| "mutate (SetType i v) a st = setField (\<lambda>x. x\<lparr>type := v\<rparr>) i a st"
| "mutate (SetBody i v) a st = setField (\<lambda>x. x\<lparr>body := v\<rparr>) i a st"

fun is_array_mutation :: "mutation \<Rightarrow> bool" where
  "is_array_mutation (ArrPush r) = True"
| "is_array_mutation ArrPop = True"
| "is_array_mutation ArrShift = True"
| "is_array_mutation ArrReverse = True"
| "is_array_mutation (ArrSplice n) = True"
| "is_array_mutation _ = False"

text \<open>Every reference the room holds is an address that has been handed out.\<close>

fun entryBelow :: "nat \<Rightarrow> entry \<Rightarrow> bool" where
  "entryBelow n (Ref r) = (r < n)"
| "entryBelow n (Val p) = True"

definition refsBelow :: "server \<Rightarrow> bool" where
  "refsBelow st = list_all (entryBelow (nextRef st)) (opLog (room st) @ undoneStack (room st))"

text \<open>
  A room \<^verbatim>\<open>r1\<close> that clients 0, 1 and 2 have joined and that holds no operation yet. The
  socket of client 1 is closed (\<^verbatim>\<open>readyState\<close> 3) and has not been removed yet.
\<close>

definition exSockets :: "nat \<Rightarrow> client" where
  "exSockets c = \<lparr>userId = ''s'', username = JStr ''Anon'', color = JStr ''#000000'',
                  readyState = (if c = 1 then 3 else OPEN)\<rparr>"

definition exHeap :: "nat \<Rightarrow> operation" where
  "exHeap r = \<lparr>opId = JUndefined, ts = JUndefined, type = JUndefined, body = []\<rparr>"

definition exArrays :: "nat \<Rightarrow> entry list" where
  "exArrays n = []"

definition exServer :: server where
  "exServer = \<lparr>heap = exHeap, nextRef = 0, arrays = exArrays, nextArr = 0, sockets = exSockets,
               room = (createRoom ''r1'')\<lparr>clients := [0, 1, 2]\<rparr>\<rparr>"

definition exOp :: "string \<Rightarrow> int \<Rightarrow> string \<Rightarrow> operation" where
  "exOp i t k = \<lparr>opId = JStr i, ts = JNum t, type = JStr k, body = []\<rparr>"

text \<open>An \<^verbatim>\<open>op\<close> message from client 0 carrying \<^verbatim>\<open>exOp i t k\<close>, handled at clock \<^verbatim>\<open>now\<close>.\<close>

definition exCommit :: "string \<Rightarrow> int \<Rightarrow> string \<Rightarrow> int \<Rightarrow> event" where
  "exCommit i t k now = (0, ''uuid-1'', now, Some (MsgOp (Some (exOp i t k))))"

text \<open>An \<^verbatim>\<open>op\<close> message from client 0 whose \<^verbatim>\<open>op\<close> is the number \<^verbatim>\<open>n\<close>.\<close>

definition exCommitNum :: "int \<Rightarrow> int \<Rightarrow> event" where
  "exCommitNum n now = (0, ''uuid-1'', now, Some (MsgOpPrim (PNum n)))"

definition exUndo :: event where
  "exUndo = (2, ''uuid-2'', 50, Some Undo)"

definition exRedo :: event where
  "exRedo = (2, ''uuid-3'', 60, Some Redo)"

lemmas ex_defs = exServer_def exCommit_def exCommitNum_def exUndo_def exRedo_def exOp_def
  exSockets_def exHeap_def exArrays_def createRoom_def onMessage_def pushOp_def undoLast_def
  redoLast_def broadcast_def OPEN_def finalized_def js_or_def logOps_def logIds_def logTs_def
  stackOps_def getState_def setField_def applyPartialStroke_def Let_def

section \<open>The room methods, step by step\<close>

lemma undoLast_empty: "opLog (room st) = [] \<Longrightarrow> undoLast now st = (None, st)"
  by (simp add: undoLast_def)

lemma undoLast_nonempty:
  "opLog (room st) \<noteq> [] \<Longrightarrow>
   undoLast now st =
     (Some (valOpId (deref (heap st) (last (opLog (room st)))), now),
      st\<lparr>room := (room st)\<lparr>opLog := butlast (opLog (room st)),
                             undoneStack := undoneStack (room st) @ [last (opLog (room st))]\<rparr>\<rparr>)"
  by (simp add: undoLast_def Let_def)

lemma redoLast_empty: "undoneStack (room st) = [] \<Longrightarrow> redoLast now st = (None, st)"
  by (simp add: redoLast_def)

lemma redoLast_nonempty:
  "undoneStack (room st) \<noteq> [] \<Longrightarrow>
   redoLast now st =
     (Some (last (undoneStack (room st)), now),
      st\<lparr>room := (room st)\<lparr>opLog := opLog (room st) @ [last (undoneStack (room st))],
                             undoneStack := butlast (undoneStack (room st))\<rparr>\<rparr>)"
  by (simp add: redoLast_def Let_def)

lemma pushOp_room:
  "room (pushOp e uuid now st) = (room st)\<lparr>opLog := opLog (room st) @ [e], undoneStack := []\<rparr>"
  by (cases e) (simp_all add: pushOp_def Let_def)

lemma pushOp_other:
  "nextRef (pushOp e uuid now st) = nextRef st" "sockets (pushOp e uuid now st) = sockets st"
  "arrays (pushOp e uuid now st) = arrays st" "nextArr (pushOp e uuid now st) = nextArr st"
  by (cases e; simp add: pushOp_def Let_def)+

lemma pushOp_heap:
  "heap (pushOp (Ref r) uuid now st) = (heap st)(r := finalized (heap st r) uuid now)"
  "heap (pushOp (Val p) uuid now st) = heap st"
  by (simp_all add: pushOp_def finalized_def Let_def)

lemma undo_then_redo:
  assumes "opLog (room st) \<noteq> []"
  shows "snd (redoLast n2 (snd (undoLast n1 st))) = st"
  using assms by (simp add: undoLast_nonempty redoLast_nonempty)

lemma undoLast_combined:
  "opLog (room (snd (undoLast now st))) @ rev (undoneStack (room (snd (undoLast now st))))
     = opLog (room st) @ rev (undoneStack (room st))"
  by (cases "opLog (room st) = []") (simp_all add: undoLast_empty undoLast_nonempty)

lemma redoLast_combined:
  "opLog (room (snd (redoLast now st))) @ rev (undoneStack (room (snd (redoLast now st))))
     = opLog (room st) @ rev (undoneStack (room st))"
proof (cases "undoneStack (room st) = []")
  case True
  then show ?thesis by (simp add: redoLast_empty)
next
  case False
  then obtain xs x where "undoneStack (room st) = xs @ [x]"
    by (cases "undoneStack (room st)" rule: rev_exhaust) auto
  then show ?thesis by (simp add: redoLast_nonempty)
qed

lemma undoLast_frame:
  "heap (snd (undoLast now st)) = heap st" "nextRef (snd (undoLast now st)) = nextRef st"
  by (cases "opLog (room st) = []"; simp add: undoLast_empty undoLast_nonempty)+

lemma redoLast_frame:
  "heap (snd (redoLast now st)) = heap st" "nextRef (snd (redoLast now st)) = nextRef st"
  by (cases "undoneStack (room st) = []"; simp add: redoLast_empty redoLast_nonempty)+

section \<open>The handler, message by message\<close>

lemma broadcast_all:
  "broadcast socks (Some r) msg None
     = map (\<lambda>d. (d, msg)) (filter (\<lambda>d. readyState (socks d) = OPEN) (clients r))"
  by (simp add: broadcast_def)

lemma broadcast_except:
  "broadcast socks (Some r) msg (Some a)
     = map (\<lambda>d. (d, msg)) (filter (\<lambda>d. d \<noteq> a \<and> readyState (socks d) = OPEN) (clients r))"
proof -
  have "(\<lambda>c. Some a \<noteq> Some c \<and> readyState (socks c) = OPEN)
      = (\<lambda>d. d \<noteq> a \<and> readyState (socks d) = OPEN)" by auto
  then show ?thesis by (simp add: broadcast_def)
qed

lemma handleMessage_Op:
  "handleMessage uuid now st c (MsgOp (Some v)) =
     Inr (st\<lparr>heap := (heap st)(nextRef st := finalized v uuid now),
             nextRef := Suc (nextRef st),
             room := (room st)\<lparr>opLog := opLog (room st) @ [Ref (nextRef st)],
                               undoneStack := []\<rparr>\<rparr>,
          map (\<lambda>d. (d, OpMsg (ObjVal (finalized v uuid now))))
            (filter (\<lambda>d. readyState (sockets st d) = OPEN) (clients (room st))))"
  by (simp add: Let_def pushOp_heap pushOp_room pushOp_other broadcast_all)

lemma onMessage_Op:
  "onMessage uuid now st c (Some (MsgOp (Some v))) =
     (st\<lparr>heap := (heap st)(nextRef st := finalized v uuid now),
         nextRef := Suc (nextRef st),
         room := (room st)\<lparr>opLog := opLog (room st) @ [Ref (nextRef st)],
                           undoneStack := []\<rparr>\<rparr>,
      map (\<lambda>d. (d, OpMsg (ObjVal (finalized v uuid now))))
        (filter (\<lambda>d. readyState (sockets st d) = OPEN) (clients (room st))))"
  by (simp only: onMessage_def handleMessage_Op option.case sum.case)

lemma handleMessage_OpPrim:
  "handleMessage uuid now st c (MsgOpPrim p) =
     Inr (st\<lparr>room := (room st)\<lparr>opLog := opLog (room st) @ [Val p], undoneStack := []\<rparr>\<rparr>,
          map (\<lambda>d. (d, OpMsg (PrimVal p)))
            (filter (\<lambda>d. readyState (sockets st d) = OPEN) (clients (room st))))"
  by (simp add: Let_def pushOp_room pushOp_other broadcast_all)
     (simp add: pushOp_def Let_def)

lemma onMessage_OpPrim:
  "onMessage uuid now st c (Some (MsgOpPrim p)) =
     (st\<lparr>room := (room st)\<lparr>opLog := opLog (room st) @ [Val p], undoneStack := []\<rparr>\<rparr>,
      map (\<lambda>d. (d, OpMsg (PrimVal p)))
        (filter (\<lambda>d. readyState (sockets st d) = OPEN) (clients (room st))))"
  by (simp only: onMessage_def handleMessage_OpPrim option.case sum.case)

lemma onMessage_Op_fst:
  "fst (onMessage uuid now st c (Some (MsgOp (Some v)))) =
     pushOp (Ref (nextRef st)) uuid now
       (st\<lparr>heap := (heap st)(nextRef st := v), nextRef := Suc (nextRef st)\<rparr>)"
  by (simp add: onMessage_def Let_def)

lemma onMessage_OpPrim_fst:
  "fst (onMessage uuid now st c (Some (MsgOpPrim p))) = pushOp (Val p) uuid now st"
  by (simp add: onMessage_def Let_def)

lemma onMessage_Undo_fst: "fst (onMessage uuid now st c (Some Undo)) = snd (undoLast now st)"
  by (simp add: onMessage_def split: prod.splits option.splits)

lemma onMessage_Redo_fst: "fst (onMessage uuid now st c (Some Redo)) = snd (redoLast now st)"
  by (simp add: onMessage_def split: prod.splits option.splits)

lemma onMessage_StrokePart:
  "onMessage uuid now st a (Some (StrokePart p)) =
     (st, map (\<lambda>d. (d, StrokePartMsg p))
            (filter (\<lambda>d. d \<noteq> a \<and> readyState (sockets st d) = OPEN) (clients (room st))))"
  by (simp add: onMessage_def applyPartialStroke_def broadcast_except)

lemma onMessage_RequestState:
  "onMessage uuid now st c (Some RequestState) =
     (st\<lparr>arrays := (arrays st)(nextArr st := opLog (room st)), nextArr := Suc (nextArr st)\<rparr>,
      [(c, StateMsg (logOps st))])"
  by (simp add: onMessage_def getState_def logOps_def)

text \<open>Every message that is not a commit leaves the log followed by the reversed stack as it is.\<close>

lemma onMessage_other:
  assumes "\<not> is_commit (c, uuid, now, m)"
  shows "heap (fst (onMessage uuid now st c m)) = heap st
       \<and> nextRef (fst (onMessage uuid now st c m)) = nextRef st
       \<and> opLog (room (fst (onMessage uuid now st c m)))
           @ rev (undoneStack (room (fst (onMessage uuid now st c m))))
         = opLog (room st) @ rev (undoneStack (room st))"
proof (cases m)
  case None
  then show ?thesis by (simp add: onMessage_def)
next
  case (Some msg)
  show ?thesis
  proof (cases msg)
    case Undo
    then show ?thesis
      by (simp add: Some onMessage_Undo_fst undoLast_combined undoLast_frame)
  next
    case Redo
    then show ?thesis
      by (simp add: Some onMessage_Redo_fst redoLast_combined redoLast_frame)
  next
    case (MsgOp x)
    with assms Some have "x = None" by (cases x) auto
    then show ?thesis by (simp add: Some MsgOp onMessage_def)
  next
    case (MsgOpPrim p)
    with assms Some show ?thesis by simp
  next
    case RequestState
    then show ?thesis by (simp add: Some onMessage_RequestState)
  qed (auto simp add: Some onMessage_def applyPartialStroke_def Let_def split: option.splits)
qed

section \<open>Runs of messages\<close>

lemma run_append: "run (xs @ ys) s = run ys (run xs s)"
  by (induction xs arbitrary: s) auto

lemma run_single: "run [(c, u, n, m)] s = fst (onMessage u n s c m)"
  by simp

lemma is_commit_cases:
  assumes "is_commit (c, uuid, now, m)"
  obtains v where "m = Some (MsgOp (Some v))" | p where "m = Some (MsgOpPrim p)"
  using assms by (cases m) (auto split: option.splits client_msg.splits)

lemma run_commits_nonempty:
  "evs \<noteq> [] \<Longrightarrow> list_all is_commit evs \<Longrightarrow> opLog (room (run evs st)) \<noteq> []"
proof (induction evs arbitrary: st rule: rev_induct)
  case Nil
  then show ?case by simp
next
  case (snoc e evs)
  obtain c uuid now m where e: "e = (c, uuid, now, m)" by (cases e) auto
  from snoc.prems e have "is_commit (c, uuid, now, m)" by simp
  then show ?case
  proof (cases rule: is_commit_cases)
    case (1 v)
    then show ?thesis by (simp add: run_append e onMessage_Op_fst pushOp_room)
  next
    case (2 p)
    then show ?thesis by (simp add: run_append e onMessage_OpPrim_fst pushOp_room)
  qed
qed

lemma run_undos:
  "list_all is_undo evs \<Longrightarrow>
   opLog (room (run evs st)) = take (length (opLog (room st)) - length evs) (opLog (room st))"
proof (induction evs arbitrary: st)
  case Nil
  then show ?case by simp
next
  case (Cons e evs)
  obtain c uuid now m where e: "e = (c, uuid, now, m)" by (cases e) auto
  with Cons.prems have m: "m = Some Undo" and rest: "list_all is_undo evs" by auto
  let ?st1 = "snd (undoLast now st)"
  have step: "run (e # evs) st = run evs ?st1"
    by (simp add: e m onMessage_Undo_fst)
  show ?case
  proof (cases "opLog (room st) = []")
    case True
    then show ?thesis using Cons.IH[OF rest, of ?st1] step by (simp add: undoLast_empty)
  next
    case False
    then have l1: "opLog (room ?st1) = butlast (opLog (room st))"
      by (simp add: undoLast_nonempty)
    show ?thesis using Cons.IH[OF rest, of ?st1] step False
      by (simp add: l1 butlast_conv_take min_def)
  qed
qed

lemma refsBelow_combined:
  "refsBelow st
     = list_all (entryBelow (nextRef st)) (opLog (room st) @ rev (undoneStack (room st)))"
  by (auto simp add: refsBelow_def list_all_iff)

text \<open>Writing the store at an address no element refers to changes no element.\<close>

lemma deref_fresh:
  "entryBelow n e \<Longrightarrow> deref (h(n := x)) e = deref h e"
  by (cases e) auto

lemma map_deref_fresh:
  "list_all (entryBelow n) es \<Longrightarrow> map (deref (h(n := x))) es = map (deref h) es"
  by (induction es) (auto simp add: deref_fresh)

lemma entryBelow_Suc: "entryBelow n e \<Longrightarrow> entryBelow (Suc n) e"
  by (cases e) auto

text \<open>What a commit does to the elements of the log, in a state where addresses are fresh.\<close>

lemma commit_obj_log:
  assumes "refsBelow st"
  shows "logOps (fst (onMessage uuid now st c (Some (MsgOp (Some v)))))
           = logOps st @ [ObjVal (finalized v uuid now)]"
    and "stackOps (fst (onMessage uuid now st c (Some (MsgOp (Some v))))) = []"
    and "refsBelow (fst (onMessage uuid now st c (Some (MsgOp (Some v)))))"
proof -
  have below: "list_all (entryBelow (nextRef st)) (opLog (room st))"
    using assms by (simp add: refsBelow_def)
  show "logOps (fst (onMessage uuid now st c (Some (MsgOp (Some v)))))
           = logOps st @ [ObjVal (finalized v uuid now)]"
    using map_deref_fresh[OF below] by (simp add: onMessage_Op logOps_def)
  show "stackOps (fst (onMessage uuid now st c (Some (MsgOp (Some v))))) = []"
    by (simp add: onMessage_Op stackOps_def)
  show "refsBelow (fst (onMessage uuid now st c (Some (MsgOp (Some v)))))"
    using below by (auto simp add: onMessage_Op refsBelow_def list_all_iff entryBelow_Suc)
qed

lemma commit_prim_log:
  "logOps (fst (onMessage uuid now st c (Some (MsgOpPrim p)))) = logOps st @ [PrimVal p]"
  "stackOps (fst (onMessage uuid now st c (Some (MsgOpPrim p)))) = []"
  "refsBelow st \<Longrightarrow> refsBelow (fst (onMessage uuid now st c (Some (MsgOpPrim p))))"
  by (simp_all add: onMessage_OpPrim logOps_def stackOps_def refsBelow_def)

lemma other_log:
  assumes "\<not> is_commit (c, uuid, now, m)"
  shows "logOps (fst (onMessage uuid now st c m)) @ rev (stackOps (fst (onMessage uuid now st c m)))
           = logOps st @ rev (stackOps st)"
    and "refsBelow st \<Longrightarrow> refsBelow (fst (onMessage uuid now st c m))"
proof -
  note fr = onMessage_other[OF assms, of st]
  let ?st1 = "fst (onMessage uuid now st c m)"
  have "map (deref (heap ?st1)) (opLog (room ?st1) @ rev (undoneStack (room ?st1)))
      = map (deref (heap st)) (opLog (room st) @ rev (undoneStack (room st)))"
    using fr by simp
  then show "logOps ?st1 @ rev (stackOps ?st1) = logOps st @ rev (stackOps st)"
    by (simp add: logOps_def stackOps_def rev_map)
  show "refsBelow st \<Longrightarrow> refsBelow ?st1"
    using fr by (simp add: refsBelow_combined)
qed

text \<open>The invariant holds after every message.\<close>

lemma refsBelow_onMessage:
  "refsBelow st \<Longrightarrow> refsBelow (fst (onMessage uuid now st c m))"
proof (cases "is_commit (c, uuid, now, m)")
  case True
  assume wf: "refsBelow st"
  from True show ?thesis
    by (cases rule: is_commit_cases) (simp_all add: commit_obj_log(3)[OF wf] commit_prim_log(3)[OF wf])
next
  case False
  assume "refsBelow st"
  then show ?thesis by (rule other_log(2)[OF False])
qed

lemma refsBelow_run: "refsBelow st \<Longrightarrow> refsBelow (run evs st)"
proof (induction evs arbitrary: st)
  case Nil
  then show ?case by simp
next
  case (Cons e evs)
  obtain c uuid now m where e: "e = (c, uuid, now, m)" by (cases e) auto
  show ?case using Cons.IH[OF refsBelow_onMessage[OF Cons.prems]] by (simp add: e)
qed

lemma subseq_drop_middle: "subseq (a @ c) (a @ b @ c)"
  by (simp add: subseq_append' subseq_drop_many)

lemma subseq_set: "subseq xs ys \<Longrightarrow> set xs \<subseteq> set ys"
  by (induction rule: list_emb.induct) auto

lemma subseq_distinct: "subseq xs ys \<Longrightarrow> distinct ys \<Longrightarrow> distinct xs"
proof (induction rule: list_emb.induct)
  case (list_emb_Cons2 x y xs ys)
  then show ?case using subseq_set[of xs ys] by auto
qed auto

lemma subseq_sorted_wrt: "subseq xs ys \<Longrightarrow> sorted_wrt P ys \<Longrightarrow> sorted_wrt P xs"
proof (induction rule: list_emb.induct)
  case (list_emb_Cons2 x y xs ys)
  then show ?case using subseq_set[of xs ys] by auto
qed auto

text \<open>
  The log is at every moment a subsequence of what was in the log and on the stack at the
  start, followed by what the commits appended, in commit order: a commit appends its
  element and drops the stack, undo and redo move the boundary between log and stack.
\<close>

lemma run_subseq:
  "refsBelow st \<Longrightarrow>
   subseq (logOps (run evs st)) (logOps st @ rev (stackOps st) @ concat (map commitOps evs))"
proof (induction evs arbitrary: st)
  case Nil
  then show ?case by (simp add: subseq_rev_drop_many)
next
  case (Cons e evs)
  obtain c uuid now m where e: "e = (c, uuid, now, m)" by (cases e) auto
  let ?st1 = "fst (onMessage uuid now st c m)"
  have wf: "refsBelow ?st1"
    using Cons.prems by (rule refsBelow_onMessage)
  note ih = Cons.IH[OF wf]
  show ?case
  proof (cases "is_commit (c, uuid, now, m)")
    case False
    have none: "commitOps (c, uuid, now, m) = []"
      using False by (auto split: option.splits client_msg.splits)
    have "subseq (logOps (run evs ?st1))
            ((logOps ?st1 @ rev (stackOps ?st1)) @ concat (map commitOps evs))"
      using ih by simp
    then show ?thesis
      by (simp only: other_log(1)[OF False]) (simp add: e none del: commitOps.simps)
  next
    case True
    then obtain x where one: "commitOps (c, uuid, now, m) = [x]"
      and l1: "logOps ?st1 = logOps st @ [x]" and s1: "stackOps ?st1 = []"
      by (cases rule: is_commit_cases)
        (simp_all add: commit_obj_log(1,2)[OF Cons.prems] commit_prim_log(1,2))
    have "subseq (logOps (run evs ?st1)) (logOps st @ [x] @ concat (map commitOps evs))"
      using ih by (simp add: l1 s1)
    moreover have "subseq (logOps st @ [x] @ concat (map commitOps evs))
            (logOps st @ rev (stackOps st) @ [x] @ concat (map commitOps evs))"
      by (rule subseq_drop_middle)
    ultimately have "subseq (logOps (run evs ?st1))
            (logOps st @ rev (stackOps st) @ [x] @ concat (map commitOps evs))"
      by (rule subseq_order.trans)
    then show ?thesis by (simp add: e one del: commitOps.simps)
  qed
qed

lemma run_from_empty:
  assumes "opLog (room st) = []" and "undoneStack (room st) = []"
  shows "subseq (logOps (run evs st)) (concat (map commitOps evs))"
proof -
  have "refsBelow st" using assms by (simp add: refsBelow_def)
  from run_subseq[OF this, of evs] show ?thesis
    using assms by (simp add: logOps_def stackOps_def)
qed

section \<open>Arrays by reference\<close>

lemma writeArr_NewArr:
  "room (writeArr (NewArr n) xs st) = room st" "heap (writeArr (NewArr n) xs st) = heap st"
  by simp_all

lemma mutate_array_NewArr:
  "is_array_mutation m \<Longrightarrow>
   room (mutate m (NewArr n) st) = room st \<and> heap (mutate m (NewArr n) st) = heap st"
  by (cases m) simp_all

lemma mutate_room_NewArr: "room (mutate m (NewArr n) st) = room st"
  by (cases m) (simp_all add: setField_def split: entry.splits)

text \<open>
  Through a reference to the log's own array the same calls do change the log: the model
  tells a copy of the array from the array itself.
\<close>

lemma mutate_log_array:
  "opLog (room (mutate ArrPop OpLogArr st)) = butlast (opLog (room st))"
  "opLog (room (mutate (ArrPush e) OpLogArr st)) = opLog (room st) @ [e]"
  by simp_all

lemma commit_empties_stack:
  assumes "is_commit (c, uuid, now, m)"
  shows "undoneStack (room (fst (onMessage uuid now st c m))) = []"
  using assms
  by (cases rule: is_commit_cases) (simp_all add: onMessage_Op onMessage_OpPrim)

lemma redo_on_empty_stack:
  assumes "undoneStack (room st) = []"
  shows "redoLast now st = (None, st)" and "handleMessage uuid now st c Redo = Inr (st, [])"
    and "run [(c, uuid, now, Some Redo)] st = st"
proof -
  show r: "redoLast now st = (None, st)"
    using assms by (rule redoLast_empty)
  show "handleMessage uuid now st c Redo = Inr (st, [])"
    by (simp add: r)
  show "run [(c, uuid, now, Some Redo)] st = st"
    by (simp only: run_single onMessage_Redo_fst r snd_conv)
qed

section \<open>Claims\<close>

subsection \<open>C1: operations of an unrecognized kind\<close>

text \<open>
  C1, as stated, fails: an \<^verbatim>\<open>op\<close> message whose operation has the kind \<^verbatim>\<open>triangle\<close>
  (neither \<^verbatim>\<open>stroke\<close> nor \<^verbatim>\<open>shape\<close>) raises nothing, is appended to the log and is sent
  to the open members of the room.
\<close>

theorem commit_unknown_kind_counterexample:
  "type (exOp ''o1'' 5 ''triangle'') \<noteq> JStr ''stroke''
   \<and> type (exOp ''o1'' 5 ''triangle'') \<noteq> JStr ''shape''
   \<and> \<not> isl (handleMessage ''uuid-1'' 10 exServer 0 (MsgOp (Some (exOp ''o1'' 5 ''triangle''))))
   \<and> logOps (fst (onMessage ''uuid-1'' 10 exServer 0 (Some (MsgOp (Some (exOp ''o1'' 5 ''triangle''))))))
       = [ObjVal (exOp ''o1'' 5 ''triangle'')]
   \<and> snd (onMessage ''uuid-1'' 10 exServer 0 (Some (MsgOp (Some (exOp ''o1'' 5 ''triangle'')))))
       = [(0, OpMsg (ObjVal (exOp ''o1'' 5 ''triangle''))),
          (2, OpMsg (ObjVal (exOp ''o1'' 5 ''triangle'')))]"
  by (simp add: ex_defs)

text \<open>
  C1, amended: the commit does not validate the kind, and no commit fails with
  InvalidOperation. In every state the server can reach (the addresses the room holds have
  been handed out), for every operation object submitted, whatever its kind: the commit
  raises nothing; the log is the log as it was, followed by the operation with its id and
  timestamp filled in when they were missing, its kind kept when it is truthy and set to
  \<^verbatim>\<open>stroke\<close> when it is missing or falsy; and that operation is sent as an \<^verbatim>\<open>op\<close> message to
  every member whose socket is open. A number, string or boolean submitted as the operation
  is appended and sent in the same way, as it is. The only commit that appends nothing and
  sends nothing is one whose \<^verbatim>\<open>op\<close> is missing or null: the TypeError it raises is caught
  by the message listener. The condition on the state holds again after every message.
\<close>

theorem commit_any_kind:
  assumes "refsBelow st"
  shows "logOps (fst (onMessage uuid now st c (Some (MsgOp (Some v)))))
           = logOps st
             @ [ObjVal (v\<lparr>opId := js_or (opId v) (JStr uuid), ts := js_or (ts v) (JNum now),
                          type := (if truthy (type v) then type v else JStr ''stroke'')\<rparr>)]
       \<and> snd (onMessage uuid now st c (Some (MsgOp (Some v))))
           = map (\<lambda>d. (d, OpMsg (ObjVal
                   (v\<lparr>opId := js_or (opId v) (JStr uuid), ts := js_or (ts v) (JNum now),
                      type := (if truthy (type v) then type v else JStr ''stroke'')\<rparr>))))
               (filter (\<lambda>d. readyState (sockets st d) = OPEN) (clients (room st)))
       \<and> (\<exists>res. handleMessage uuid now st c (MsgOp (Some v)) = Inr res)
       \<and> logOps (fst (onMessage uuid now st c (Some (MsgOpPrim p)))) = logOps st @ [PrimVal p]
       \<and> snd (onMessage uuid now st c (Some (MsgOpPrim p)))
           = map (\<lambda>d. (d, OpMsg (PrimVal p)))
               (filter (\<lambda>d. readyState (sockets st d) = OPEN) (clients (room st)))
       \<and> (\<exists>res. handleMessage uuid now st c (MsgOpPrim p) = Inr res)
       \<and> onMessage uuid now st c (Some (MsgOp None)) = (st, [])
       \<and> refsBelow (fst (onMessage uuid now st c m))"
proof -
  have a: "logOps (fst (onMessage uuid now st c (Some (MsgOp (Some v)))))
           = logOps st
             @ [ObjVal (v\<lparr>opId := js_or (opId v) (JStr uuid), ts := js_or (ts v) (JNum now),
                          type := (if truthy (type v) then type v else JStr ''stroke'')\<rparr>)]"
    using commit_obj_log(1)[OF assms] by (simp add: finalized_def)
  have b: "snd (onMessage uuid now st c (Some (MsgOp (Some v))))
           = map (\<lambda>d. (d, OpMsg (ObjVal
                   (v\<lparr>opId := js_or (opId v) (JStr uuid), ts := js_or (ts v) (JNum now),
                      type := (if truthy (type v) then type v else JStr ''stroke'')\<rparr>))))
               (filter (\<lambda>d. readyState (sockets st d) = OPEN) (clients (room st)))"
    by (simp add: onMessage_Op finalized_def)
  have c: "\<exists>res. handleMessage uuid now st c (MsgOp (Some v)) = Inr res"
    by (simp only: handleMessage_Op) blast
  have d: "logOps (fst (onMessage uuid now st c (Some (MsgOpPrim p)))) = logOps st @ [PrimVal p]"
    by (rule commit_prim_log(1))
  have e: "snd (onMessage uuid now st c (Some (MsgOpPrim p)))
           = map (\<lambda>d. (d, OpMsg (PrimVal p)))
               (filter (\<lambda>d. readyState (sockets st d) = OPEN) (clients (room st)))"
    by (simp add: onMessage_OpPrim)
  have f: "\<exists>res. handleMessage uuid now st c (MsgOpPrim p) = Inr res"
    by (simp only: handleMessage_OpPrim) blast
  have g: "onMessage uuid now st c (Some (MsgOp None)) = (st, [])"
    by (simp add: onMessage_def)
  have h: "refsBelow (fst (onMessage uuid now st c m))"
    using assms by (rule refsBelow_onMessage)
  from a b c d e f g h show ?thesis by (intro conjI)
qed

theorem commit_any_kind_witness:
  "refsBelow (run [exCommit ''o0'' 1 ''stroke'' 2] exServer)
   \<and> logOps (fst (onMessage ''uuid-1'' 10 (run [exCommit ''o0'' 1 ''stroke'' 2] exServer) 0
                    (Some (MsgOp (Some (exOp ''o1'' 5 ''triangle''))))))
       = [ObjVal (exOp ''o0'' 1 ''stroke''), ObjVal (exOp ''o1'' 5 ''triangle'')]
   \<and> logOps (fst (onMessage ''uuid-1'' 10 (run [exCommit ''o0'' 1 ''stroke'' 2] exServer) 0
                    (Some (MsgOpPrim (PNum 5)))))
       = [ObjVal (exOp ''o0'' 1 ''stroke''), PrimVal (PNum 5)]"
proof -
  have h: "refsBelow (run [exCommit ''o0'' 1 ''stroke'' 2] exServer)"
    by (simp add: ex_defs refsBelow_def)
  have l: "logOps (run [exCommit ''o0'' 1 ''stroke'' 2] exServer) = [ObjVal (exOp ''o0'' 1 ''stroke'')]"
    by (simp add: ex_defs)
  note t = commit_any_kind[OF h, where uuid = "''uuid-1''" and now = 10 and c = 0
      and v = "exOp ''o1'' 5 ''triangle''" and p = "PNum 5"]
  have a: "logOps (fst (onMessage ''uuid-1'' 10 (run [exCommit ''o0'' 1 ''stroke'' 2] exServer) 0
                    (Some (MsgOp (Some (exOp ''o1'' 5 ''triangle''))))))
       = [ObjVal (exOp ''o0'' 1 ''stroke''), ObjVal (exOp ''o1'' 5 ''triangle'')]"
    using t[THEN conjunct1] by (simp add: l) (simp add: exOp_def js_or_def)
  have b: "logOps (fst (onMessage ''uuid-1'' 10 (run [exCommit ''o0'' 1 ''stroke'' 2] exServer) 0
                    (Some (MsgOpPrim (PNum 5)))))
       = [ObjVal (exOp ''o0'' 1 ''stroke''), PrimVal (PNum 5)]"
    using t[THEN conjunct2, THEN conjunct2, THEN conjunct2, THEN conjunct1] by (simp add: l)
  from h a b show ?thesis by (intro conjI)
qed

subsection \<open>C2: commits, one undo, one redo\<close>

text \<open>
  C2: for every state of the room and every sequence of N commits, N at least 1, followed
  by one undo and then one redo, the log is the log as it was after the N commits: the same
  elements in the same order, holding the same operations. (The whole state is as it was
  after the commits, the undo/redo stack included.)
\<close>

theorem undo_redo_roundtrip:
  assumes "evs \<noteq> []" and "list_all is_commit evs"
  shows "opLog (room (run [(c1, u1, n1, Some Undo), (c2, u2, n2, Some Redo)] (run evs st)))
           = opLog (room (run evs st))
       \<and> logOps (run [(c1, u1, n1, Some Undo), (c2, u2, n2, Some Redo)] (run evs st))
           = logOps (run evs st)
       \<and> run [(c1, u1, n1, Some Undo), (c2, u2, n2, Some Redo)] (run evs st) = run evs st"
proof -
  have ne: "opLog (room (run evs st)) \<noteq> []"
    using assms by (rule run_commits_nonempty)
  have "run [(c1, u1, n1, Some Undo), (c2, u2, n2, Some Redo)] (run evs st) = run evs st"
    by (simp add: onMessage_Undo_fst onMessage_Redo_fst undo_then_redo[OF ne])
  then show ?thesis by simp
qed

theorem undo_redo_roundtrip_witness:
  "[exCommit ''o1'' 5 ''stroke'' 10, exCommit ''o2'' 6 ''shape'' 11] \<noteq> []
   \<and> list_all is_commit [exCommit ''o1'' 5 ''stroke'' 10, exCommit ''o2'' 6 ''shape'' 11]
   \<and> logIds (run [(2, ''uuid-2'', 50, Some Undo), (2, ''uuid-3'', 60, Some Redo)]
               (run [exCommit ''o1'' 5 ''stroke'' 10, exCommit ''o2'' 6 ''shape'' 11] exServer))
       = [JStr ''o1'', JStr ''o2'']"
proof -
  have h1: "[exCommit ''o1'' 5 ''stroke'' 10, exCommit ''o2'' 6 ''shape'' 11] \<noteq> []"
    by simp
  have h2: "list_all is_commit [exCommit ''o1'' 5 ''stroke'' 10, exCommit ''o2'' 6 ''shape'' 11]"
    by (simp add: exCommit_def)
  have ids: "logIds (run [exCommit ''o1'' 5 ''stroke'' 10, exCommit ''o2'' 6 ''shape'' 11] exServer)
      = [JStr ''o1'', JStr ''o2'']"
    by (simp add: ex_defs)
  show ?thesis
    using h1 h2 ids
      undo_redo_roundtrip[OF h1 h2, where ?c1.0 = 2 and ?u1.0 = "''uuid-2''" and ?n1.0 = 50
        and ?c2.0 = 2 and ?u2.0 = "''uuid-3''" and ?n2.0 = 60 and st = exServer]
    by (simp only: simp_thms)
qed

subsection \<open>C3: a commit invalidates redo\<close>

text \<open>
  C3: appending an operation empties the undo/redo stack. So, in every state, after an undo
  and then a commit, \<^verbatim>\<open>redoLast\<close> returns null and leaves the state alone, and a \<^verbatim>\<open>redo\<close>
  message changes nothing and sends nothing. This holds for a committed operation object
  and for a committed primitive alike.
\<close>

theorem redo_invalidation:
  "undoneStack (room (pushOp r uuid now st)) = []
   \<and> redoLast n3 (run [(c1, u1, n1, Some Undo), (c2, u2, n2, Some (MsgOp (Some v)))] st)
       = (None, run [(c1, u1, n1, Some Undo), (c2, u2, n2, Some (MsgOp (Some v)))] st)
   \<and> handleMessage u3 n3 (run [(c1, u1, n1, Some Undo), (c2, u2, n2, Some (MsgOp (Some v)))] st) c3 Redo
       = Inr (run [(c1, u1, n1, Some Undo), (c2, u2, n2, Some (MsgOp (Some v)))] st, [])
   \<and> run [(c1, u1, n1, Some Undo), (c2, u2, n2, Some (MsgOp (Some v))), (c3, u3, n3, Some Redo)] st
       = run [(c1, u1, n1, Some Undo), (c2, u2, n2, Some (MsgOp (Some v)))] st
   \<and> redoLast n3 (run [(c1, u1, n1, Some Undo), (c2, u2, n2, Some (MsgOpPrim p))] st)
       = (None, run [(c1, u1, n1, Some Undo), (c2, u2, n2, Some (MsgOpPrim p))] st)
   \<and> handleMessage u3 n3 (run [(c1, u1, n1, Some Undo), (c2, u2, n2, Some (MsgOpPrim p))] st) c3 Redo
       = Inr (run [(c1, u1, n1, Some Undo), (c2, u2, n2, Some (MsgOpPrim p))] st, [])
   \<and> run [(c1, u1, n1, Some Undo), (c2, u2, n2, Some (MsgOpPrim p)), (c3, u3, n3, Some Redo)] st
       = run [(c1, u1, n1, Some Undo), (c2, u2, n2, Some (MsgOpPrim p))] st"
proof -
  have stack: "undoneStack (room (run [(c1, u1, n1, Some Undo), (c2, u2, n2, m)] st)) = []"
    if "is_commit (c2, u2, n2, m)" for m
    using commit_empties_stack[OF that] by simp
  have three: "run [(c1, u1, n1, Some Undo), (c2, u2, n2, m), (c3, u3, n3, Some Redo)] st
      = run [(c1, u1, n1, Some Undo), (c2, u2, n2, m)] st"
    if "is_commit (c2, u2, n2, m)" for m
  proof -
    have "run ([(c1, u1, n1, Some Undo), (c2, u2, n2, m)] @ [(c3, u3, n3, Some Redo)]) st
        = run [(c3, u3, n3, Some Redo)] (run [(c1, u1, n1, Some Undo), (c2, u2, n2, m)] st)"
      by (rule run_append)
    also have "\<dots> = run [(c1, u1, n1, Some Undo), (c2, u2, n2, m)] st"
      using stack[OF that] by (rule redo_on_empty_stack(3))
    finally show ?thesis by simp
  qed
  have co: "is_commit (c2, u2, n2, Some (MsgOp (Some v)))" by simp
  have cp: "is_commit (c2, u2, n2, Some (MsgOpPrim p))" by simp
  have p: "undoneStack (room (pushOp r uuid now st)) = []"
    by (simp add: pushOp_room)
  from p redo_on_empty_stack(1)[OF stack[OF co]] redo_on_empty_stack(2)[OF stack[OF co]] three[OF co]
    redo_on_empty_stack(1)[OF stack[OF cp]] redo_on_empty_stack(2)[OF stack[OF cp]] three[OF cp]
  show ?thesis by (intro conjI)
qed

theorem redo_invalidation_witness:
  "logIds (run [(2, ''uuid-2'', 50, Some Undo),
                (0, ''uuid-1'', 20, Some (MsgOp (Some (exOp ''o2'' 6 ''shape'')))),
                (2, ''uuid-3'', 60, Some Redo)]
            (run [exCommit ''o1'' 5 ''stroke'' 10] exServer))
     = [JStr ''o2'']"
proof -
  have ids: "logIds (run [(2, ''uuid-2'', 50, Some Undo),
                (0, ''uuid-1'', 20, Some (MsgOp (Some (exOp ''o2'' 6 ''shape''))))]
            (run [exCommit ''o1'' 5 ''stroke'' 10] exServer)) = [JStr ''o2'']"
    by (simp add: ex_defs)
  note t = redo_invalidation[where ?c1.0 = 2 and ?u1.0 = "''uuid-2''" and ?n1.0 = 50
        and ?c2.0 = 0 and ?u2.0 = "''uuid-1''" and ?n2.0 = 20 and v = "exOp ''o2'' 6 ''shape''"
        and ?c3.0 = 2 and ?u3.0 = "''uuid-3''" and ?n3.0 = 60
        and st = "run [exCommit ''o1'' 5 ''stroke'' 10] exServer"]
  show ?thesis
    using ids t[THEN conjunct2, THEN conjunct2, THEN conjunct2, THEN conjunct1]
    by (simp only: simp_thms)
qed

subsection \<open>C4: ids in the log\<close>

text \<open>
  C4, as stated, fails: two commits that carry the same id \<^verbatim>\<open>a\<close> are both appended, and the
  log holds the id twice.
\<close>

theorem log_ids_counterexample:
  "logIds (run [exCommit ''a'' 5 ''stroke'' 10, exCommit ''a'' 6 ''stroke'' 11] exServer)
     = [JStr ''a'', JStr ''a'']
   \<and> \<not> distinct (logIds (run [exCommit ''a'' 5 ''stroke'' 10, exCommit ''a'' 6 ''stroke'' 11] exServer))"
  by (simp add: ex_defs)

text \<open>
  C4, amended: the server checks no id. A committed operation object keeps the id it was
  submitted with when that is truthy and gets the value of \<^verbatim>\<open>uuidv4()\<close> otherwise; a
  committed number, string or boolean gets no id (its \<^verbatim>\<open>opId\<close> reads \<^verbatim>\<open>undefined\<close>). In a
  room that starts with an empty log and an empty stack, after any sequence of messages the
  ids of the elements of the log are pairwise distinct provided the ids the commits end up
  with (the submitted one, the generated one, or \<^verbatim>\<open>undefined\<close> for a primitive) are
  pairwise distinct.
\<close>

theorem log_ids_distinct:
  assumes "opLog (room st) = []" and "undoneStack (room st) = []"
      and "distinct (map valOpId (concat (map commitOps evs)))"
  shows "distinct (logIds (run evs st))
       \<and> logIds (run [(c, uuid, now, Some (MsgOp (Some v)))] st) = [js_or (opId v) (JStr uuid)]
       \<and> logIds (run [(c, uuid, now, Some (MsgOpPrim p))] st) = [JUndefined]"
proof -
  have "subseq (logIds (run evs st)) (map valOpId (concat (map commitOps evs)))"
    unfolding logIds_def using run_from_empty[OF assms(1,2)] by (rule subseq_map)
  then have d: "distinct (logIds (run evs st))"
    using assms(3) by (rule subseq_distinct)
  have o: "logIds (run [(c, uuid, now, Some (MsgOp (Some v)))] st) = [js_or (opId v) (JStr uuid)]"
    using assms(1) by (simp add: onMessage_Op logIds_def logOps_def finalized_def)
  have q: "logIds (run [(c, uuid, now, Some (MsgOpPrim p))] st) = [JUndefined]"
    using assms(1) by (simp add: onMessage_OpPrim logIds_def logOps_def)
  from d o q show ?thesis by (intro conjI)
qed

theorem log_ids_distinct_witness:
  "opLog (room exServer) = [] \<and> undoneStack (room exServer) = []
   \<and> distinct (map valOpId (concat (map commitOps
         [exCommit ''o1'' 5 ''stroke'' 10, exCommit '''' 6 ''shape'' 11, exCommitNum 5 12,
          exUndo, exRedo])))
   \<and> distinct (logIds (run
         [exCommit ''o1'' 5 ''stroke'' 10, exCommit '''' 6 ''shape'' 11, exCommitNum 5 12,
          exUndo, exRedo] exServer))
   \<and> logIds (run [(0, ''uuid-1'', 11, Some (MsgOp (Some (exOp '''' 6 ''shape''))))] exServer)
       = [JStr ''uuid-1'']"
proof -
  have h1: "opLog (room exServer) = []" by (simp add: exServer_def createRoom_def)
  have h2: "undoneStack (room exServer) = []" by (simp add: exServer_def createRoom_def)
  have h3: "distinct (map valOpId (concat (map commitOps
         [exCommit ''o1'' 5 ''stroke'' 10, exCommit '''' 6 ''shape'' 11, exCommitNum 5 12,
          exUndo, exRedo])))"
    by (simp add: ex_defs)
  have e: "js_or (opId (exOp '''' 6 ''shape'')) (JStr ''uuid-1'') = JStr ''uuid-1''"
    by (simp add: exOp_def js_or_def)
  note t = log_ids_distinct[OF h1 h2 h3, where c = 0 and uuid = "''uuid-1''" and now = 11
        and v = "exOp '''' 6 ''shape''"]
  have a: "logIds (run [(0, ''uuid-1'', 11, Some (MsgOp (Some (exOp '''' 6 ''shape''))))] exServer)
       = [JStr ''uuid-1'']"
    using t[THEN conjunct2, THEN conjunct1] by (simp only: e)
  from h1 h2 h3 t[THEN conjunct1] a show ?thesis by (intro conjI)
qed

subsection \<open>C5: undo is bounded by the log\<close>

text \<open>
  C5: undo never raises, however often it is called. On an empty log \<^verbatim>\<open>undoLast\<close> returns
  null, the state stays as it is and nothing is sent. On a non-empty log it removes exactly
  the last element and reports its id. After any number of undo messages the log is what
  is left of it after dropping that many elements from its end, and it is empty once there
  were at least as many undos as elements.
\<close>

theorem undo_bound:
  "(opLog (room st) = [] \<longrightarrow>
      undoLast now st = (None, st) \<and> handleMessage uuid now st c Undo = Inr (st, []))
   \<and> (opLog (room st) \<noteq> [] \<longrightarrow>
        fst (undoLast now st) = Some (valOpId (deref (heap st) (last (opLog (room st)))), now)
        \<and> opLog (room (snd (undoLast now st))) = butlast (opLog (room st))
        \<and> length (opLog (room (snd (undoLast now st)))) = length (opLog (room st)) - 1)
   \<and> (\<exists>s. handleMessage uuid now st c Undo = Inr (snd (undoLast now st), s))
   \<and> (list_all is_undo evs \<longrightarrow>
        opLog (room (run evs st))
          = take (length (opLog (room st)) - length evs) (opLog (room st)))
   \<and> (list_all is_undo evs \<and> length (opLog (room st)) \<le> length evs \<longrightarrow>
        opLog (room (run evs st)) = [])"
proof -
  have a: "opLog (room st) = [] \<longrightarrow>
      undoLast now st = (None, st) \<and> handleMessage uuid now st c Undo = Inr (st, [])"
    by (simp add: undoLast_empty)
  have b: "opLog (room st) \<noteq> [] \<longrightarrow>
        fst (undoLast now st) = Some (valOpId (deref (heap st) (last (opLog (room st)))), now)
        \<and> opLog (room (snd (undoLast now st))) = butlast (opLog (room st))
        \<and> length (opLog (room (snd (undoLast now st)))) = length (opLog (room st)) - 1"
    by (simp add: undoLast_nonempty)
  have c: "\<exists>s. handleMessage uuid now st c Undo = Inr (snd (undoLast now st), s)"
    by (cases "undoLast now st") (auto split: option.splits)
  have d: "list_all is_undo evs \<longrightarrow>
        opLog (room (run evs st))
          = take (length (opLog (room st)) - length evs) (opLog (room st))"
    using run_undos by blast
  from a b c d show ?thesis by simp
qed

theorem undo_bound_witness:
  "list_all is_undo [exUndo, exUndo, exUndo]
   \<and> length (opLog (room (run [exCommit ''o1'' 5 ''stroke'' 10] exServer))) \<le> length [exUndo, exUndo, exUndo]
   \<and> opLog (room (run [exCommit ''o1'' 5 ''stroke'' 10] exServer)) = [Ref 0]
   \<and> opLog (room (run [exUndo, exUndo, exUndo] (run [exCommit ''o1'' 5 ''stroke'' 10] exServer))) = []
   \<and> opLog (room (snd (undoLast 50 (run [exCommit ''o1'' 5 ''stroke'' 10] exServer)))) = []
   \<and> opLog (room exServer) = []
   \<and> handleMessage ''uuid-2'' 50 exServer 2 Undo = Inr (exServer, [])"
proof -
  have h1: "list_all is_undo [exUndo, exUndo, exUndo]" by (simp add: exUndo_def)
  have h2: "opLog (room (run [exCommit ''o1'' 5 ''stroke'' 10] exServer)) = [Ref 0]"
    by (simp add: ex_defs)
  have h3: "length (opLog (room (run [exCommit ''o1'' 5 ''stroke'' 10] exServer))) \<le> length [exUndo, exUndo, exUndo]"
    by (simp add: h2)
  have h4: "opLog (room (run [exCommit ''o1'' 5 ''stroke'' 10] exServer)) \<noteq> []"
    by (simp add: h2)
  have h5: "opLog (room exServer) = []" by (simp add: exServer_def createRoom_def)
  note t = undo_bound[where st = "run [exCommit ''o1'' 5 ''stroke'' 10] exServer"
        and evs = "[exUndo, exUndo, exUndo]" and now = 50]
  note many = t[THEN conjunct2, THEN conjunct2, THEN conjunct2, THEN conjunct2, THEN mp,
      OF conjI[OF h1 h3]]
  have one: "opLog (room (snd (undoLast 50 (run [exCommit ''o1'' 5 ''stroke'' 10] exServer)))) = []"
    using t[THEN conjunct2, THEN conjunct1, THEN mp, OF h4, THEN conjunct2, THEN conjunct1]
    by (simp add: h2)
  note none = undo_bound[where st = exServer and now = 50 and uuid = "''uuid-2''" and c = 2,
      THEN conjunct1, THEN mp, OF h5, THEN conjunct2]
  from h1 h3 h2 many one h5 none show ?thesis by (intro conjI)
qed

subsection \<open>C6: the state snapshot\<close>

text \<open>
  C6, as stated, fails: \<^verbatim>\<open>getState\<close> copies the array, not the operations. A caller that
  writes a field of an operation in the array it received writes the very object the log
  holds: after one commit of \<^verbatim>\<open>o1\<close>, setting \<^verbatim>\<open>opId\<close> of element 0 of the snapshot changes
  the id of the operation in the room's log.
\<close>

theorem getState_counterexample:
  "readArr (snd (getState (run [exCommit ''o1'' 5 ''stroke'' 10] exServer)))
       (fst (getState (run [exCommit ''o1'' 5 ''stroke'' 10] exServer))) = [Ref 0]
   \<and> logIds (run [exCommit ''o1'' 5 ''stroke'' 10] exServer) = [JStr ''o1'']
   \<and> logIds (mutate (SetOpId 0 (JStr ''changed''))
               (fst (getState (run [exCommit ''o1'' 5 ''stroke'' 10] exServer)))
               (snd (getState (run [exCommit ''o1'' 5 ''stroke'' 10] exServer))))
       = [JStr ''changed'']"
  by (simp add: ex_defs)

text \<open>
  C6, amended: \<^verbatim>\<open>getState\<close> returns a reference to a new array that holds the elements of
  the log, in the order of the log, at the time of the call, and changes neither the room
  nor any operation; a \<^verbatim>\<open>request-state\<close> message sends that sequence, as it is in the store
  at that moment, to the requester alone, and leaves the room and the operations as they
  are. The copy is shallow. Whatever the caller does to the array through the reference it
  received (adding, removing, reordering elements) changes neither the room's log nor any
  operation, and no mutation changes which elements the log holds. But the operation
  objects are the log's own: a field the caller writes in the operation at an index of the
  array is written in the operation at that index of the log.
\<close>

theorem getState_shallow_copy:
  "readArr (snd (getState st)) (fst (getState st)) = opLog (room st)
   \<and> map (deref (heap (snd (getState st)))) (readArr (snd (getState st)) (fst (getState st)))
       = logOps st
   \<and> room (snd (getState st)) = room st
   \<and> heap (snd (getState st)) = heap st
   \<and> snd (onMessage uuid now st c (Some RequestState)) = [(c, StateMsg (logOps st))]
   \<and> room (fst (onMessage uuid now st c (Some RequestState))) = room st
   \<and> heap (fst (onMessage uuid now st c (Some RequestState))) = heap st
   \<and> (is_array_mutation m \<longrightarrow>
        room (mutate m (fst (getState st)) (snd (getState st))) = room st
        \<and> heap (mutate m (fst (getState st)) (snd (getState st))) = heap st
        \<and> logOps (mutate m (fst (getState st)) (snd (getState st))) = logOps st)
   \<and> opLog (room (mutate m (fst (getState st)) (snd (getState st)))) = opLog (room st)
   \<and> (i < length (opLog (room st)) \<and> opLog (room st) ! i = Ref r \<longrightarrow>
        logOps (mutate (SetOpId i v) (fst (getState st)) (snd (getState st))) ! i
          = ObjVal ((heap st r)\<lparr>opId := v\<rparr>))"
proof -
  let ?a = "fst (getState st)" and ?s = "snd (getState st)"
  have a: "?a = NewArr (nextArr st)"
    by (simp add: getState_def)
  have rd: "readArr ?s ?a = opLog (room st)"
    by (simp add: getState_def)
  have rm: "room ?s = room st" and hp: "heap ?s = heap st"
    by (simp_all add: getState_def)
  have cont: "map (deref (heap ?s)) (readArr ?s ?a) = logOps st"
    by (simp only: rd hp logOps_def)
  have rq: "snd (onMessage uuid now st c (Some RequestState)) = [(c, StateMsg (logOps st))]"
    "room (fst (onMessage uuid now st c (Some RequestState))) = room st"
    "heap (fst (onMessage uuid now st c (Some RequestState))) = heap st"
    by (simp_all add: onMessage_RequestState)
  have arr: "is_array_mutation m \<longrightarrow>
        room (mutate m ?a ?s) = room st \<and> heap (mutate m ?a ?s) = heap st
        \<and> logOps (mutate m ?a ?s) = logOps st"
  proof
    assume "is_array_mutation m"
    from mutate_array_NewArr[OF this, of "nextArr st" ?s]
    show "room (mutate m ?a ?s) = room st \<and> heap (mutate m ?a ?s) = heap st
        \<and> logOps (mutate m ?a ?s) = logOps st"
      by (simp add: a rm hp logOps_def)
  qed
  have same: "opLog (room (mutate m ?a ?s)) = opLog (room st)"
    by (simp add: a mutate_room_NewArr rm)
  have fld: "i < length (opLog (room st)) \<and> opLog (room st) ! i = Ref r \<longrightarrow>
        logOps (mutate (SetOpId i v) ?a ?s) ! i = ObjVal ((heap st r)\<lparr>opId := v\<rparr>)"
    by (simp add: getState_def setField_def logOps_def)
  from rd cont rm hp rq arr same fld show ?thesis by (intro conjI)
qed

theorem getState_shallow_copy_witness:
  "is_array_mutation ArrPop
   \<and> logOps (mutate ArrPop (fst (getState (run [exCommit ''o1'' 5 ''stroke'' 10] exServer)))
                (snd (getState (run [exCommit ''o1'' 5 ''stroke'' 10] exServer))))
       = [ObjVal (exOp ''o1'' 5 ''stroke'')]
   \<and> readArr (mutate ArrPop (fst (getState (run [exCommit ''o1'' 5 ''stroke'' 10] exServer)))
                (snd (getState (run [exCommit ''o1'' 5 ''stroke'' 10] exServer))))
         (fst (getState (run [exCommit ''o1'' 5 ''stroke'' 10] exServer))) = []
   \<and> 0 < length (opLog (room (run [exCommit ''o1'' 5 ''stroke'' 10] exServer)))
   \<and> opLog (room (run [exCommit ''o1'' 5 ''stroke'' 10] exServer)) ! 0 = Ref 0
   \<and> logOps (mutate (SetOpId 0 (JStr ''x''))
                (fst (getState (run [exCommit ''o1'' 5 ''stroke'' 10] exServer)))
                (snd (getState (run [exCommit ''o1'' 5 ''stroke'' 10] exServer)))) ! 0
       = ObjVal ((exOp ''o1'' 5 ''stroke'')\<lparr>opId := JStr ''x''\<rparr>)"
proof -
  have h1: "is_array_mutation ArrPop" by simp
  have h2: "0 < length (opLog (room (run [exCommit ''o1'' 5 ''stroke'' 10] exServer)))"
    by (simp add: ex_defs)
  have h3: "opLog (room (run [exCommit ''o1'' 5 ''stroke'' 10] exServer)) ! 0 = Ref 0"
    by (simp add: ex_defs)
  have l: "logOps (run [exCommit ''o1'' 5 ''stroke'' 10] exServer) = [ObjVal (exOp ''o1'' 5 ''stroke'')]"
    by (simp add: ex_defs)
  have hp: "heap (run [exCommit ''o1'' 5 ''stroke'' 10] exServer) 0 = exOp ''o1'' 5 ''stroke''"
    by (simp add: ex_defs)
  have popped: "readArr (mutate ArrPop (fst (getState (run [exCommit ''o1'' 5 ''stroke'' 10] exServer)))
                (snd (getState (run [exCommit ''o1'' 5 ''stroke'' 10] exServer))))
         (fst (getState (run [exCommit ''o1'' 5 ''stroke'' 10] exServer))) = []"
    by (simp add: ex_defs)
  note t = getState_shallow_copy[where st = "run [exCommit ''o1'' 5 ''stroke'' 10] exServer"
        and m = ArrPop and i = 0 and r = 0 and v = "JStr ''x''"]
  note arr = t[THEN conjunct2, THEN conjunct2, THEN conjunct2, THEN conjunct2, THEN conjunct2,
      THEN conjunct2, THEN conjunct2, THEN conjunct1, THEN mp, OF h1, THEN conjunct2,
      THEN conjunct2]
  note fld = t[THEN conjunct2, THEN conjunct2, THEN conjunct2, THEN conjunct2, THEN conjunct2,
      THEN conjunct2, THEN conjunct2, THEN conjunct2, THEN conjunct2, THEN mp, OF conjI[OF h2 h3]]
  have a: "logOps (mutate ArrPop (fst (getState (run [exCommit ''o1'' 5 ''stroke'' 10] exServer)))
                (snd (getState (run [exCommit ''o1'' 5 ''stroke'' 10] exServer))))
       = [ObjVal (exOp ''o1'' 5 ''stroke'')]"
    using arr by (simp only: l)
  have b: "logOps (mutate (SetOpId 0 (JStr ''x''))
                (fst (getState (run [exCommit ''o1'' 5 ''stroke'' 10] exServer)))
                (snd (getState (run [exCommit ''o1'' 5 ''stroke'' 10] exServer)))) ! 0
       = ObjVal ((exOp ''o1'' 5 ''stroke'')\<lparr>opId := JStr ''x''\<rparr>)"
    using fld by (simp only: hp)
  from h1 a popped h2 h3 b show ?thesis by (intro conjI)
qed

subsection \<open>C7: a commit is broadcast to the author too\<close>

text \<open>
  C7, as stated, fails for a member whose socket is not open: \<^verbatim>\<open>broadcast\<close> skips it.
  With members 0, 1 and 2, the socket of 1 closed, a commit by 0 is sent to 0 and 2 only.
\<close>

theorem commit_broadcast_counterexample:
  "clients (room exServer) = [0, 1, 2]
   \<and> snd (onMessage ''uuid-1'' 10 exServer 0 (Some (MsgOp (Some (exOp ''o1'' 5 ''stroke'')))))
       = [(0, OpMsg (ObjVal (exOp ''o1'' 5 ''stroke''))),
          (2, OpMsg (ObjVal (exOp ''o1'' 5 ''stroke'')))]"
  by (simp add: ex_defs)

text \<open>
  C7, amended: for every commit that succeeds, the finalized operation (the one now last in
  the log) is sent as an \<^verbatim>\<open>op\<close> message to every member of the room whose socket is open,
  the author included when it is a member with an open socket: the author is not excepted.
  Members whose socket is not open are skipped. A committed primitive goes to the same
  members.
\<close>

theorem commit_broadcast_open_members:
  "snd (onMessage uuid now st c (Some (MsgOp (Some v))))
     = map (\<lambda>d. (d, OpMsg (ObjVal (finalized v uuid now))))
         (filter (\<lambda>d. readyState (sockets st d) = OPEN) (clients (room st)))
   \<and> last (logOps (fst (onMessage uuid now st c (Some (MsgOp (Some v))))))
     = ObjVal (finalized v uuid now)
   \<and> (\<forall>d \<in> set (clients (room st)). readyState (sockets st d) = OPEN \<longrightarrow>
        (d, OpMsg (ObjVal (finalized v uuid now)))
          \<in> set (snd (onMessage uuid now st c (Some (MsgOp (Some v))))))
   \<and> (c \<in> set (clients (room st)) \<and> readyState (sockets st c) = OPEN \<longrightarrow>
        (c, OpMsg (ObjVal (finalized v uuid now)))
          \<in> set (snd (onMessage uuid now st c (Some (MsgOp (Some v))))))
   \<and> (\<forall>d \<in> set (clients (room st)). readyState (sockets st d) \<noteq> OPEN \<longrightarrow>
        d \<notin> fst ` set (snd (onMessage uuid now st c (Some (MsgOp (Some v))))))
   \<and> snd (onMessage uuid now st c (Some (MsgOpPrim p)))
     = map (\<lambda>d. (d, OpMsg (PrimVal p)))
         (filter (\<lambda>d. readyState (sockets st d) = OPEN) (clients (room st)))
   \<and> last (logOps (fst (onMessage uuid now st c (Some (MsgOpPrim p))))) = PrimVal p"
  by (auto simp add: onMessage_Op onMessage_OpPrim logOps_def)

theorem commit_broadcast_open_members_witness:
  "0 \<in> set (clients (room exServer)) \<and> readyState (sockets exServer 0) = OPEN
   \<and> (0, OpMsg (ObjVal (finalized (exOp ''o1'' 5 ''stroke'') ''uuid-1'' 10)))
        \<in> set (snd (onMessage ''uuid-1'' 10 exServer 0 (Some (MsgOp (Some (exOp ''o1'' 5 ''stroke''))))))
   \<and> finalized (exOp ''o1'' 5 ''stroke'') ''uuid-1'' 10 = exOp ''o1'' 5 ''stroke''
   \<and> 1 \<in> set (clients (room exServer)) \<and> readyState (sockets exServer 1) \<noteq> OPEN
   \<and> 1 \<notin> fst ` set (snd (onMessage ''uuid-1'' 10 exServer 0 (Some (MsgOp (Some (exOp ''o1'' 5 ''stroke''))))))"
proof -
  have h1: "0 \<in> set (clients (room exServer))" by (simp add: exServer_def)
  have h2: "readyState (sockets exServer 0) = OPEN" by (simp add: exServer_def exSockets_def)
  have h3: "finalized (exOp ''o1'' 5 ''stroke'') ''uuid-1'' 10 = exOp ''o1'' 5 ''stroke''"
    by (simp add: finalized_def exOp_def js_or_def)
  have h4: "1 \<in> set (clients (room exServer))" by (simp add: exServer_def)
  have h5: "readyState (sockets exServer 1) \<noteq> OPEN"
    by (simp add: exServer_def exSockets_def OPEN_def)
  note t = commit_broadcast_open_members[where uuid = "''uuid-1''" and now = 10 and st = exServer
        and c = 0 and v = "exOp ''o1'' 5 ''stroke''"]
  note author = t[THEN conjunct2, THEN conjunct2, THEN conjunct2, THEN conjunct1, THEN mp,
      OF conjI[OF h1 h2]]
  note closed = t[THEN conjunct2, THEN conjunct2, THEN conjunct2, THEN conjunct2, THEN conjunct1,
      THEN bspec, OF h4, THEN mp, OF h5]
  from h1 h2 author h3 h4 h5 closed show ?thesis by (intro conjI)
qed

subsection \<open>C8: stroke parts are relayed, not stored\<close>

text \<open>
  C8, as stated, fails for a member whose socket is not open: with members 0, 1 and 2, the
  socket of 1 closed, a fragment sent by 0 reaches 2 only, though 1 is another member.
\<close>

theorem stroke_part_counterexample:
  "clients (room exServer) = [0, 1, 2]
   \<and> snd (onMessage ''uuid-1'' 10 exServer 0 (Some (StrokePart ''frag'')))
       = [(2, StrokePartMsg ''frag'')]"
  by (simp add: ex_defs)

text \<open>
  C8, amended: a \<^verbatim>\<open>stroke-part\<close> fragment sent by session A is forwarded as it is to every
  other member of the room whose socket is open, and never to A; members whose socket is
  not open are skipped. The state of the server does not change: the fragment is not
  appended to the log.
\<close>

theorem stroke_part_relay:
  "snd (onMessage uuid now st a (Some (StrokePart p)))
     = map (\<lambda>d. (d, StrokePartMsg p))
         (filter (\<lambda>d. d \<noteq> a \<and> readyState (sockets st d) = OPEN) (clients (room st)))
   \<and> (\<forall>d \<in> set (clients (room st)). d \<noteq> a \<and> readyState (sockets st d) = OPEN \<longrightarrow>
        (d, StrokePartMsg p) \<in> set (snd (onMessage uuid now st a (Some (StrokePart p)))))
   \<and> a \<notin> fst ` set (snd (onMessage uuid now st a (Some (StrokePart p))))
   \<and> (\<forall>d \<in> set (clients (room st)). readyState (sockets st d) \<noteq> OPEN \<longrightarrow>
        d \<notin> fst ` set (snd (onMessage uuid now st a (Some (StrokePart p)))))
   \<and> fst (onMessage uuid now st a (Some (StrokePart p))) = st
   \<and> opLog (room (fst (onMessage uuid now st a (Some (StrokePart p))))) = opLog (room st)
   \<and> (\<exists>res. handleMessage uuid now st a (StrokePart p) = Inr res)"
proof -
  have ok: "\<exists>res. handleMessage uuid now st a (StrokePart p) = Inr res"
    by (simp add: Let_def)
  from ok show ?thesis
    by (auto simp add: onMessage_StrokePart simp del: handleMessage.simps)
qed

theorem stroke_part_relay_witness:
  "2 \<in> set (clients (room exServer)) \<and> 2 \<noteq> (0::nat) \<and> readyState (sockets exServer 2) = OPEN
   \<and> (2, StrokePartMsg ''frag'')
        \<in> set (snd (onMessage ''uuid-1'' 10 exServer 0 (Some (StrokePart ''frag''))))
   \<and> 0 \<notin> fst ` set (snd (onMessage ''uuid-1'' 10 exServer 0 (Some (StrokePart ''frag''))))
   \<and> 1 \<in> set (clients (room exServer)) \<and> readyState (sockets exServer 1) \<noteq> OPEN
   \<and> 1 \<notin> fst ` set (snd (onMessage ''uuid-1'' 10 exServer 0 (Some (StrokePart ''frag''))))"
proof -
  have h1: "2 \<in> set (clients (room exServer))" by (simp add: exServer_def)
  have h2: "readyState (sockets exServer 2) = OPEN" by (simp add: exServer_def exSockets_def)
  have h3: "2 \<noteq> (0::nat)" by simp
  have h4: "1 \<in> set (clients (room exServer))" by (simp add: exServer_def)
  have h5: "readyState (sockets exServer 1) \<noteq> OPEN"
    by (simp add: exServer_def exSockets_def OPEN_def)
  note t = stroke_part_relay[where uuid = "''uuid-1''" and now = 10 and st = exServer and a = 0
        and p = "''frag''"]
  note other = t[THEN conjunct2, THEN conjunct1, THEN bspec, OF h1, THEN mp, OF conjI[OF h3 h2]]
  note self = t[THEN conjunct2, THEN conjunct2, THEN conjunct1]
  note closed = t[THEN conjunct2, THEN conjunct2, THEN conjunct2, THEN conjunct1, THEN bspec,
      OF h4, THEN mp, OF h5]
  from h1 h3 h2 other self h4 h5 closed show ?thesis by (intro conjI)
qed

subsection \<open>C9: timestamps in the log\<close>

text \<open>
  C9, as stated, fails: the timestamp of a committed operation is the one its sender put
  in, when there is one. Two commits handled at server clock 100 and 200, the first carrying
  the timestamp 10 and the second the timestamp 5, leave a log whose timestamps go down.
\<close>

theorem log_ts_counterexample:
  "logTs (run [exCommit ''o1'' 10 ''stroke'' 100, exCommit ''o2'' 5 ''stroke'' 200] exServer)
     = [JNum 10, JNum 5]
   \<and> \<not> sorted_wrt ts_le
         (logTs (run [exCommit ''o1'' 10 ''stroke'' 100, exCommit ''o2'' 5 ''stroke'' 200] exServer))"
  by (simp add: ex_defs)

text \<open>
  C9, amended: a committed operation object keeps the timestamp it was submitted with when
  that is truthy, and gets the server's \<^verbatim>\<open>Date.now()\<close> only when it has none; a committed
  number, string or boolean gets no timestamp (its \<^verbatim>\<open>ts\<close> reads \<^verbatim>\<open>undefined\<close>). In a room
  that starts with an empty log and an empty stack, after any sequence of messages every
  timestamp in the log is a number not later than any timestamp after it, provided the
  timestamps the commits end up with (the submitted one, the server's clock, or
  \<^verbatim>\<open>undefined\<close> for a primitive) are numbers that never decrease from one commit to the
  next.
\<close>

theorem log_ts_monotonic:
  assumes "opLog (room st) = []" and "undoneStack (room st) = []"
      and "sorted_wrt ts_le (map valTs (concat (map commitOps evs)))"
  shows "sorted_wrt ts_le (logTs (run evs st))
       \<and> logTs (run [(c, uuid, now, Some (MsgOp (Some v)))] st) = [js_or (ts v) (JNum now)]
       \<and> logTs (run [(c, uuid, now, Some (MsgOpPrim p))] st) = [JUndefined]"
proof -
  have "subseq (logTs (run evs st)) (map valTs (concat (map commitOps evs)))"
    unfolding logTs_def using run_from_empty[OF assms(1,2)] by (rule subseq_map)
  then have d: "sorted_wrt ts_le (logTs (run evs st))"
    using assms(3) by (rule subseq_sorted_wrt)
  have o: "logTs (run [(c, uuid, now, Some (MsgOp (Some v)))] st) = [js_or (ts v) (JNum now)]"
    using assms(1) by (simp add: onMessage_Op logTs_def logOps_def finalized_def)
  have q: "logTs (run [(c, uuid, now, Some (MsgOpPrim p))] st) = [JUndefined]"
    using assms(1) by (simp add: onMessage_OpPrim logTs_def logOps_def)
  from d o q show ?thesis by (intro conjI)
qed

theorem log_ts_monotonic_witness:
  "opLog (room exServer) = [] \<and> undoneStack (room exServer) = []
   \<and> sorted_wrt ts_le (map valTs (concat (map commitOps
         [exCommit ''o1'' 0 ''stroke'' 100, exCommit ''o2'' 150 ''shape'' 200, exUndo, exRedo])))
   \<and> sorted_wrt ts_le (logTs (run
         [exCommit ''o1'' 0 ''stroke'' 100, exCommit ''o2'' 150 ''shape'' 200, exUndo, exRedo] exServer))
   \<and> logTs (run [(0, ''uuid-1'', 100, Some (MsgOp (Some (exOp ''o1'' 0 ''stroke''))))] exServer)
       = [JNum 100]"
proof -
  have h1: "opLog (room exServer) = []" by (simp add: exServer_def createRoom_def)
  have h2: "undoneStack (room exServer) = []" by (simp add: exServer_def createRoom_def)
  have h3: "sorted_wrt ts_le (map valTs (concat (map commitOps
         [exCommit ''o1'' 0 ''stroke'' 100, exCommit ''o2'' 150 ''shape'' 200, exUndo, exRedo])))"
    by (simp add: ex_defs)
  have e: "js_or (ts (exOp ''o1'' 0 ''stroke'')) (JNum 100) = JNum 100"
    by (simp add: exOp_def js_or_def)
  note t = log_ts_monotonic[OF h1 h2 h3, where c = 0 and uuid = "''uuid-1''" and now = 100
        and v = "exOp ''o1'' 0 ''stroke''"]
  have a: "logTs (run [(0, ''uuid-1'', 100, Some (MsgOp (Some (exOp ''o1'' 0 ''stroke''))))] exServer)
       = [JNum 100]"
    using t[THEN conjunct2, THEN conjunct1] by (simp only: e)
  from h1 h2 h3 t[THEN conjunct1] a show ?thesis by (intro conjI)
qed

subsection \<open>C10: undo and redo conserve the operations\<close>

text \<open>
  C10: every undo and every redo leaves the log followed by the reversed stack as it was,
  so the operations of log and stack together are the same multiset, their number is the
  same, and the operation objects are untouched: nothing is created, duplicated or lost. An
  undo that finds the log non-empty moves exactly its last operation onto the stack; a redo
  that finds the stack non-empty moves exactly its top back to the end of the log.
\<close>

theorem undo_redo_conserve:
  "mset (logOps (snd (undoLast now st))) + mset (stackOps (snd (undoLast now st)))
     = mset (logOps st) + mset (stackOps st)
   \<and> mset (logOps (snd (redoLast now st))) + mset (stackOps (snd (redoLast now st)))
     = mset (logOps st) + mset (stackOps st)
   \<and> length (opLog (room (snd (undoLast now st)))) + length (undoneStack (room (snd (undoLast now st))))
     = length (opLog (room st)) + length (undoneStack (room st))
   \<and> length (opLog (room (snd (redoLast now st)))) + length (undoneStack (room (snd (redoLast now st))))
     = length (opLog (room st)) + length (undoneStack (room st))
   \<and> heap (snd (undoLast now st)) = heap st
   \<and> heap (snd (redoLast now st)) = heap st
   \<and> opLog (room (snd (undoLast now st))) @ rev (undoneStack (room (snd (undoLast now st))))
     = opLog (room st) @ rev (undoneStack (room st))
   \<and> opLog (room (snd (redoLast now st))) @ rev (undoneStack (room (snd (redoLast now st))))
     = opLog (room st) @ rev (undoneStack (room st))
   \<and> (opLog (room st) \<noteq> [] \<longrightarrow>
        opLog (room st) = opLog (room (snd (undoLast now st))) @ [last (opLog (room st))]
        \<and> undoneStack (room (snd (undoLast now st)))
            = undoneStack (room st) @ [last (opLog (room st))])
   \<and> (undoneStack (room st) \<noteq> [] \<longrightarrow>
        undoneStack (room st)
            = undoneStack (room (snd (redoLast now st))) @ [last (undoneStack (room st))]
        \<and> opLog (room (snd (redoLast now st)))
            = opLog (room st) @ [last (undoneStack (room st))])"
proof -
  note u = undoLast_combined[of now st]
  note r = redoLast_combined[of now st]
  note hu = undoLast_frame(1)[of now st]
  note hr = redoLast_frame(1)[of now st]
  have mu: "mset (logOps (snd (undoLast now st))) + mset (stackOps (snd (undoLast now st)))
     = mset (logOps st) + mset (stackOps st)"
  proof -
    have "mset (map (deref (heap st)) (opLog (room (snd (undoLast now st))) @ rev (undoneStack (room (snd (undoLast now st))))))
        = mset (map (deref (heap st)) (opLog (room st) @ rev (undoneStack (room st))))"
      by (simp only: u)
    then show ?thesis by (simp add: logOps_def stackOps_def hu)
  qed
  have mr: "mset (logOps (snd (redoLast now st))) + mset (stackOps (snd (redoLast now st)))
     = mset (logOps st) + mset (stackOps st)"
  proof -
    have "mset (map (deref (heap st)) (opLog (room (snd (redoLast now st))) @ rev (undoneStack (room (snd (redoLast now st))))))
        = mset (map (deref (heap st)) (opLog (room st) @ rev (undoneStack (room st))))"
      by (simp only: r)
    then show ?thesis by (simp add: logOps_def stackOps_def hr)
  qed
  have lu: "length (opLog (room (snd (undoLast now st)))) + length (undoneStack (room (snd (undoLast now st))))
     = length (opLog (room st)) + length (undoneStack (room st))"
    using arg_cong[OF u, of length] by simp
  have lr: "length (opLog (room (snd (redoLast now st)))) + length (undoneStack (room (snd (redoLast now st))))
     = length (opLog (room st)) + length (undoneStack (room st))"
    using arg_cong[OF r, of length] by simp
  have ou: "opLog (room st) \<noteq> [] \<longrightarrow>
        opLog (room st) = opLog (room (snd (undoLast now st))) @ [last (opLog (room st))]
        \<and> undoneStack (room (snd (undoLast now st)))
            = undoneStack (room st) @ [last (opLog (room st))]"
    by (simp add: undoLast_nonempty)
  have orr: "undoneStack (room st) \<noteq> [] \<longrightarrow>
        undoneStack (room st)
            = undoneStack (room (snd (redoLast now st))) @ [last (undoneStack (room st))]
        \<and> opLog (room (snd (redoLast now st)))
            = opLog (room st) @ [last (undoneStack (room st))]"
    by (simp add: redoLast_nonempty)
  from mu mr lu lr hu hr u r ou orr show ?thesis by (intro conjI)
qed

theorem undo_redo_conserve_witness:
  "length (opLog (room (snd (undoLast 50 (run [exCommit ''o1'' 5 ''stroke'' 10, exCommit ''o2'' 6 ''shape'' 11] exServer)))))
     + length (undoneStack (room (snd (undoLast 50 (run [exCommit ''o1'' 5 ''stroke'' 10, exCommit ''o2'' 6 ''shape'' 11] exServer)))))
     = 2
   \<and> opLog (room (run [exCommit ''o1'' 5 ''stroke'' 10, exCommit ''o2'' 6 ''shape'' 11] exServer)) \<noteq> []
   \<and> undoneStack (room (snd (undoLast 50 (run [exCommit ''o1'' 5 ''stroke'' 10, exCommit ''o2'' 6 ''shape'' 11] exServer))))
     = [Ref 1]
   \<and> undoneStack (room (run [exCommit ''o1'' 5 ''stroke'' 10, exUndo] exServer)) \<noteq> []
   \<and> opLog (room (snd (redoLast 60 (run [exCommit ''o1'' 5 ''stroke'' 10, exUndo] exServer)))) = [Ref 0]"
proof -
  have h: "length (opLog (room (run [exCommit ''o1'' 5 ''stroke'' 10, exCommit ''o2'' 6 ''shape'' 11] exServer)))
     + length (undoneStack (room (run [exCommit ''o1'' 5 ''stroke'' 10, exCommit ''o2'' 6 ''shape'' 11] exServer)))
     = 2"
    by (simp add: ex_defs)
  have l: "opLog (room (run [exCommit ''o1'' 5 ''stroke'' 10, exCommit ''o2'' 6 ''shape'' 11] exServer)) = [Ref 0, Ref 1]"
    by (simp add: ex_defs)
  have s: "undoneStack (room (run [exCommit ''o1'' 5 ''stroke'' 10, exCommit ''o2'' 6 ''shape'' 11] exServer)) = []"
    by (simp add: ex_defs)
  have ne: "opLog (room (run [exCommit ''o1'' 5 ''stroke'' 10, exCommit ''o2'' 6 ''shape'' 11] exServer)) \<noteq> []"
    by (simp add: l)
  have l2: "opLog (room (run [exCommit ''o1'' 5 ''stroke'' 10, exUndo] exServer)) = []"
    by (simp add: ex_defs)
  have s2: "undoneStack (room (run [exCommit ''o1'' 5 ''stroke'' 10, exUndo] exServer)) = [Ref 0]"
    by (simp add: ex_defs)
  have ne2: "undoneStack (room (run [exCommit ''o1'' 5 ''stroke'' 10, exUndo] exServer)) \<noteq> []"
    by (simp add: s2)
  note t = undo_redo_conserve[where now = 50
        and st = "run [exCommit ''o1'' 5 ''stroke'' 10, exCommit ''o2'' 6 ''shape'' 11] exServer"]
  note t2 = undo_redo_conserve[where now = 60
        and st = "run [exCommit ''o1'' 5 ''stroke'' 10, exUndo] exServer"]
  have a: "length (opLog (room (snd (undoLast 50 (run [exCommit ''o1'' 5 ''stroke'' 10, exCommit ''o2'' 6 ''shape'' 11] exServer)))))
     + length (undoneStack (room (snd (undoLast 50 (run [exCommit ''o1'' 5 ''stroke'' 10, exCommit ''o2'' 6 ''shape'' 11] exServer)))))
     = 2"
    using t[THEN conjunct2, THEN conjunct2, THEN conjunct1] h by (rule trans)
  have b: "undoneStack (room (snd (undoLast 50 (run [exCommit ''o1'' 5 ''stroke'' 10, exCommit ''o2'' 6 ''shape'' 11] exServer))))
     = [Ref 1]"
    using t[THEN conjunct2, THEN conjunct2, THEN conjunct2, THEN conjunct2, THEN conjunct2,
        THEN conjunct2, THEN conjunct2, THEN conjunct2, THEN conjunct1, THEN mp, OF ne,
        THEN conjunct2]
    by (simp add: l s)
  have c: "opLog (room (snd (redoLast 60 (run [exCommit ''o1'' 5 ''stroke'' 10, exUndo] exServer)))) = [Ref 0]"
    using t2[THEN conjunct2, THEN conjunct2, THEN conjunct2, THEN conjunct2, THEN conjunct2,
        THEN conjunct2, THEN conjunct2, THEN conjunct2, THEN conjunct2, THEN mp, OF ne2,
        THEN conjunct2]
    by (simp add: l2 s2)
  from a ne b ne2 c show ?thesis by (intro conjI)
qed

end
